theory Spec2Isabelle
  imports Main "HOL-Library.Multiset" "HOL-Library.AList" "HOL-Library.Sublist"
begin

chapter \<open>The program\<close>

text \<open>
  A shallow embedding of \<^verbatim>\<open>scripts/nyc_scraper.py\<close>: the scanner
  \<^verbatim>\<open>get_existing_downloads\<close>, the helper \<^verbatim>\<open>create_directory_structure\<close>, the task
  \<^verbatim>\<open>download_file\<close> with its wrapper \<^verbatim>\<open>download_worker\<close>, and the driver
  \<^verbatim>\<open>scrape_taxi_data\<close>. What the program takes from its surroundings is made explicit:
  the file system is a value that is passed in and returned, the calendar date and the
  answers of the network are parameters, and every exception is a value of type
  \<open>error\<close>.
\<close>

section \<open>Exceptions\<close>

text \<open>
  The exceptions the program can meet. The first seven are raised by the interpreter and
  the operating system, the last three by the HTTP library. All of them are subclasses
  of \<^verbatim>\<open>Exception\<close>, so the handler of \<^verbatim>\<open>download_file\<close> catches each of them.
\<close>

datatype error =
    FileNotFoundError
  | NotADirectoryError
  | IsADirectoryError
  | FileExistsError
  | PermissionError
  | OSError
  | ValueError
  | ConnectionError
  | HTTPError
  | ChunkedEncodingError

section \<open>Strings and integers\<close>

text \<open>
  A string is a list of characters, a character a code point below 256. Python integers
  are unbounded, hence \<open>int\<close>. \<open>py_str\<close> is \<^verbatim>\<open>str\<close> on integers: decimal digits, most
  significant first, after a minus sign for a negative number.
\<close>

definition digit_char :: "nat \<Rightarrow> char" where
  "digit_char d = ''0123456789'' ! d"

fun digits :: "nat \<Rightarrow> string" where
  "digits n = (if n < 10 then [digit_char n] else digits (n div 10) @ [digit_char (n mod 10)])"

declare digits.simps [simp del]

definition py_str :: "int \<Rightarrow> string" where
  "py_str i = (if i < 0 then CHR ''-'' # digits (nat (- i)) else digits (nat i))"

text \<open>
  \<^verbatim>\<open>s.zfill(width)\<close> pads with zeros on the left, after a leading sign if there is one,
  and returns a string that is long enough unchanged.
\<close>

definition zfill :: "nat \<Rightarrow> string \<Rightarrow> string" where
  "zfill width s =
     (if width \<le> length s then s
      else (case s of
              c # rest \<Rightarrow>
                if c = CHR ''+'' \<or> c = CHR ''-''
                then c # replicate (width - length s) CHR ''0'' @ rest
                else replicate (width - length s) CHR ''0'' @ s
            | [] \<Rightarrow> replicate width CHR ''0''))"

definition startswith :: "string \<Rightarrow> string \<Rightarrow> bool" where
  "startswith s pre = (take (length pre) s = pre)"

definition endswith :: "string \<Rightarrow> string \<Rightarrow> bool" where
  "endswith s suf = (length suf \<le> length s \<and> drop (length s - length suf) s = suf)"

text \<open>
  \<^verbatim>\<open>os.path.join(a, b)\<close> of \<^verbatim>\<open>posixpath\<close>, for two arguments: an absolute \<^verbatim>\<open>b\<close> replaces
  \<^verbatim>\<open>a\<close>; otherwise the two are put together with one separator, which is left out when
  \<^verbatim>\<open>a\<close> is empty or already ends with it.
\<close>

definition os_path_join :: "string \<Rightarrow> string \<Rightarrow> string" where
  "os_path_join a b =
     (if startswith b ''/'' then b
      else if a = [] \<or> endswith a ''/'' then a @ b
      else a @ ''/'' @ b)"

text \<open>
  \<open>py_int\<close> is \<^verbatim>\<open>int(s)\<close> on a string, with \<open>None\<close> for \<^verbatim>\<open>ValueError\<close>. White space
  around the number is dropped (below code point 256 the conversion accepts the
  characters 9 to 13, 32, 133 and 160), one sign may come first, and the digits may be
  grouped by single underscores between them. The limit on the number of digits (4300 by
  default) is above the length a file name can have and is left out.
\<close>

definition is_space :: "char \<Rightarrow> bool" where
  "is_space c = (of_char c \<in> {9, 10, 11, 12, 13, 32, 133, 160 :: nat})"

definition is_digit :: "char \<Rightarrow> bool" where
  "is_digit c = (48 \<le> (of_char c :: nat) \<and> (of_char c :: nat) \<le> 57)"

definition digit_val :: "char \<Rightarrow> nat" where
  "digit_val c = of_char c - 48"

fun parse_digits :: "nat \<Rightarrow> string \<Rightarrow> nat option" where
  "parse_digits acc [] = Some acc"
| "parse_digits acc (c # cs) =
     (if is_digit c then parse_digits (10 * acc + digit_val c) cs
      else if c = CHR ''_'' then
        (case cs of
           [] \<Rightarrow> None
         | d # ds \<Rightarrow> if is_digit d then parse_digits (10 * acc + digit_val d) ds else None)
      else None)"

definition strip :: "string \<Rightarrow> string" where
  "strip s = rev (dropWhile is_space (rev (dropWhile is_space s)))"

definition parse_unsigned :: "string \<Rightarrow> nat option" where
  "parse_unsigned s =
     (case s of
        [] \<Rightarrow> None
      | c # cs \<Rightarrow> if is_digit c then parse_digits (digit_val c) cs else None)"

definition py_int :: "string \<Rightarrow> int option" where
  "py_int s =
     (case strip s of
        [] \<Rightarrow> None
      | c # cs \<Rightarrow>
          if c = CHR ''-'' then map_option (\<lambda>n. - int n) (parse_unsigned cs)
          else if c = CHR ''+'' then map_option int (parse_unsigned cs)
          else map_option int (parse_unsigned (c # cs)))"

text \<open>\<^verbatim>\<open>file.split('_')[0]\<close>: the part of the name before its first underscore.\<close>

definition split_first :: "string \<Rightarrow> string" where
  "split_first file = takeWhile (\<lambda>c. c \<noteq> CHR ''_'') file"

section \<open>The file system\<close>

text \<open>
  The file system is the tree below the directory the process runs in: a node is a file
  with its bytes or a directory with its entries, in the order \<^verbatim>\<open>os.listdir\<close> returns
  them. A lookup takes the first entry of a name.
\<close>

datatype node = File string | Dir "(string \<times> node) list"

fun lookup :: "node \<Rightarrow> string list \<Rightarrow> node option" where
  "lookup n [] = Some n"
| "lookup (File _) (c # cs) = None"
| "lookup (Dir es) (c # cs) = (case map_of es c of None \<Rightarrow> None | Some n \<Rightarrow> lookup n cs)"

fun is_dir_node :: "node option \<Rightarrow> bool" where
  "is_dir_node (Some (Dir _)) = True"
| "is_dir_node _ = False"

text \<open>
  \<open>mkdirs\<close> is \<^verbatim>\<open>os.makedirs\<close> (with \<^verbatim>\<open>exist_ok=False\<close>): the missing directories of the
  path are created, outermost first. It raises when the path already exists and when a
  file stands where a directory is needed.
\<close>

fun fresh_dirs :: "string list \<Rightarrow> node" where
  "fresh_dirs [] = Dir []"
| "fresh_dirs (c # cs) = Dir [(c, fresh_dirs cs)]"

fun mkdirs :: "node \<Rightarrow> string list \<Rightarrow> error + node" where
  "mkdirs n [] = Inl FileExistsError"
| "mkdirs (File _) (c # cs) = Inl NotADirectoryError"
| "mkdirs (Dir es) (c # cs) =
     (case map_of es c of
        None \<Rightarrow> Inr (Dir (es @ [(c, fresh_dirs cs)]))
      | Some n \<Rightarrow>
          (case mkdirs n cs of
             Inl e \<Rightarrow> Inl e
           | Inr n' \<Rightarrow> Inr (Dir (AList.update c n' es))))"

text \<open>
  \<open>put_file\<close> leaves a file with the given bytes at the path, new or in place of the file
  that was there: what opening a file for writing and writing to it do to the tree.
\<close>

fun put_file :: "node \<Rightarrow> string list \<Rightarrow> string \<Rightarrow> error + node" where
  "put_file (File _) [] bytes = Inr (File bytes)"
| "put_file (Dir _) [] bytes = Inl IsADirectoryError"
| "put_file (File _) (c # cs) bytes = Inl NotADirectoryError"
| "put_file (Dir es) (c # cs) bytes =
     (case map_of es c of
        None \<Rightarrow> if cs = [] then Inr (Dir (es @ [(c, File bytes)])) else Inl FileNotFoundError
      | Some n \<Rightarrow>
          (case put_file n cs bytes of
             Inl e \<Rightarrow> Inl e
           | Inr n' \<Rightarrow> Inr (Dir (AList.update c n' es))))"

text \<open>
  \<open>unlink\<close> is what \<^verbatim>\<open>os.remove\<close> does to the tree: a file is taken out of its directory; a
  directory, a missing path and a path through a file raise. A removal the tree allows
  can still be refused by the operating system; that refusal is an answer of the world
  and is part of \<open>os_remove\<close> below, which \<^verbatim>\<open>download_file\<close> calls.
\<close>

fun unlink :: "node \<Rightarrow> string list \<Rightarrow> error + node" where
  "unlink n [] = Inl IsADirectoryError"
| "unlink (File _) (c # cs) = Inl NotADirectoryError"
| "unlink (Dir es) (c # cs) =
     (case map_of es c of
        None \<Rightarrow> Inl FileNotFoundError
      | Some n \<Rightarrow>
          if cs = [] then
            (case n of
               File _ \<Rightarrow> Inr (Dir (AList.delete c es))
             | Dir _ \<Rightarrow> Inl IsADirectoryError)
          else
            (case unlink n cs of
               Inl e \<Rightarrow> Inl e
             | Inr n' \<Rightarrow> Inr (Dir (AList.update c n' es))))"

text \<open>
  A path string names the node reached from the root by its components: the pieces
  between separators, without the empty ones and the ones that are a single dot. The
  empty path names nothing. This is how the operating system reads the paths the program
  builds, which are relative, have no parent references (two dots) and do not end with a
  separator; parent references, a separator at the end of the name of a file and symbolic
  links are outside this model. So are the access rights on the directories the program
  lists and creates; the rights that decide whether a download can open and remove its
  destination are answers of the world (see \<open>env\<close>).
\<close>

fun split_slash :: "string \<Rightarrow> string list" where
  "split_slash [] = [[]]"
| "split_slash (c # cs) =
     (if c = CHR ''/'' then [] # split_slash cs
      else (case split_slash cs of
              [] \<Rightarrow> [[c]]
            | w # ws \<Rightarrow> (c # w) # ws))"

definition components :: "string \<Rightarrow> string list" where
  "components p = filter (\<lambda>s. s \<noteq> [] \<and> s \<noteq> ''.'') (split_slash p)"

definition resolve :: "string \<Rightarrow> string list option" where
  "resolve p = (if p = [] then None else Some (components p))"

definition os_path_exists :: "node \<Rightarrow> string \<Rightarrow> bool" where
  "os_path_exists fs p =
     (case resolve p of None \<Rightarrow> False | Some q \<Rightarrow> lookup fs q \<noteq> None)"

definition os_path_isdir :: "node \<Rightarrow> string \<Rightarrow> bool" where
  "os_path_isdir fs p =
     (case resolve p of None \<Rightarrow> False | Some q \<Rightarrow> is_dir_node (lookup fs q))"

definition os_listdir :: "node \<Rightarrow> string \<Rightarrow> error + string list" where
  "os_listdir fs p =
     (case resolve p of
        None \<Rightarrow> Inl FileNotFoundError
      | Some q \<Rightarrow>
          (case lookup fs q of
             None \<Rightarrow> Inl FileNotFoundError
           | Some (File _) \<Rightarrow> Inl NotADirectoryError
           | Some (Dir es) \<Rightarrow> Inr (map fst es)))"

definition os_makedirs :: "node \<Rightarrow> string \<Rightarrow> error + node" where
  "os_makedirs fs p =
     (case resolve p of None \<Rightarrow> Inl FileNotFoundError | Some q \<Rightarrow> mkdirs fs q)"

text \<open>\<^verbatim>\<open>f.write(chunk)\<close> adds the chunk to the bytes of the file that was opened.\<close>

definition file_write :: "node \<Rightarrow> string \<Rightarrow> string \<Rightarrow> error + node" where
  "file_write fs p chunk =
     (case resolve p of
        None \<Rightarrow> Inl FileNotFoundError
      | Some q \<Rightarrow>
          (case lookup fs q of
             Some (File old) \<Rightarrow> put_file fs q (old @ chunk)
           | _ \<Rightarrow> Inl OSError))"

section \<open>\<^verbatim>\<open>get_existing_downloads\<close>\<close>

text \<open>
  The three nested loops of the scanner, innermost first. Each loop carries the set
  \<^verbatim>\<open>existing\<close> it adds to. \<^verbatim>\<open>int(...)\<close> raising \<^verbatim>\<open>ValueError\<close> is the \<open>None\<close> branch:
  the handler of that loop continues with the next name. Any other exception leaves the
  function.
\<close>

fun files_loop ::
  "string list \<Rightarrow> int \<Rightarrow> int \<Rightarrow> (string \<times> int \<times> int) set \<Rightarrow> (string \<times> int \<times> int) set" where
  "files_loop [] year month existing = existing"
| "files_loop (file # files) year month existing =
     (if endswith file ''.parquet''
      then files_loop files year month (insert (split_first file, year, month) existing)
      else files_loop files year month existing)"

fun months_loop ::
  "node \<Rightarrow> string \<Rightarrow> int \<Rightarrow> string list \<Rightarrow> (string \<times> int \<times> int) set
     \<Rightarrow> error + (string \<times> int \<times> int) set" where
  "months_loop fs year_path year [] existing = Inr existing"
| "months_loop fs year_path year (month_dir # month_dirs) existing =
     (let month_path = os_path_join year_path month_dir in
      if \<not> os_path_isdir fs month_path then months_loop fs year_path year month_dirs existing
      else
        (case py_int month_dir of
           None \<Rightarrow> months_loop fs year_path year month_dirs existing
         | Some month \<Rightarrow>
             (case os_listdir fs month_path of
                Inl e \<Rightarrow> Inl e
              | Inr files \<Rightarrow>
                  months_loop fs year_path year month_dirs
                    (files_loop files year month existing))))"

fun years_loop ::
  "node \<Rightarrow> string \<Rightarrow> string list \<Rightarrow> (string \<times> int \<times> int) set
     \<Rightarrow> error + (string \<times> int \<times> int) set" where
  "years_loop fs base_path [] existing = Inr existing"
| "years_loop fs base_path (year_dir # year_dirs) existing =
     (let year_path = os_path_join base_path year_dir in
      if \<not> os_path_isdir fs year_path then years_loop fs base_path year_dirs existing
      else
        (case py_int year_dir of
           None \<Rightarrow> years_loop fs base_path year_dirs existing
         | Some year \<Rightarrow>
             (case os_listdir fs year_path of
                Inl e \<Rightarrow> Inl e
              | Inr month_dirs \<Rightarrow>
                  (case months_loop fs year_path year month_dirs existing of
                     Inl e \<Rightarrow> Inl e
                   | Inr existing' \<Rightarrow> years_loop fs base_path year_dirs existing'))))"

definition get_existing_downloads :: "node \<Rightarrow> string \<Rightarrow> error + (string \<times> int \<times> int) set" where
  "get_existing_downloads fs base_path =
     (if \<not> os_path_exists fs base_path then Inr {}
      else
        (case os_listdir fs base_path of
           Inl e \<Rightarrow> Inl e
         | Inr year_dirs \<Rightarrow> years_loop fs base_path year_dirs {}))"

section \<open>\<^verbatim>\<open>create_directory_structure\<close>\<close>

definition create_directory_structure :: "node \<Rightarrow> string \<Rightarrow> error + node" where
  "create_directory_structure fs path =
     (if \<not> os_path_exists fs path then os_makedirs fs path else Inr fs)"

section \<open>\<^verbatim>\<open>download_file\<close> and \<^verbatim>\<open>download_worker\<close>\<close>

text \<open>
  The network and the disk, as far as one download sees them. \<^verbatim>\<open>requests.get\<close> raises or
  returns a response, which has a status code and a body that arrives in chunks and can
  break off with an exception. \<open>write_ok\<close> says whether the write of a given number (counted
  from zero, per destination) goes through or raises. \<open>open_ok\<close> and \<open>remove_ok\<close> say whether
  the operating system lets the process open a path for writing and remove it: the
  access rights on the file and on its directory, a file system that is mounted
  read-only, a file that another process holds.
\<close>

datatype event = Chunk string | StreamError

record response =
  status_code :: int
  iter_content :: "event list"

record env =
  requests_get :: "string \<Rightarrow> error + response"
  write_ok :: "string \<Rightarrow> nat \<Rightarrow> bool"
  open_ok :: "string \<Rightarrow> bool"
  remove_ok :: "string \<Rightarrow> bool"

text \<open>
  \<^verbatim>\<open>open(output_path, 'wb')\<close> creates the file or empties it. It raises what the tree makes
  it raise (a directory at the path, a missing directory or a file on the way to it), and
  \<^verbatim>\<open>PermissionError\<close> when the tree allows the opening and the operating system refuses
  it.
\<close>

definition open_wb :: "env \<Rightarrow> node \<Rightarrow> string \<Rightarrow> error + node" where
  "open_wb world fs p =
     (case resolve p of
        None \<Rightarrow> Inl FileNotFoundError
      | Some q \<Rightarrow>
          (case put_file fs q [] of
             Inl e \<Rightarrow> Inl e
           | Inr fs' \<Rightarrow> if open_ok world p then Inr fs' else Inl PermissionError))"

text \<open>
  \<^verbatim>\<open>os.remove(output_path)\<close>: a path at which nothing exists raises as \<open>unlink\<close> does; at a
  path that exists, a file or a directory, the call raises \<^verbatim>\<open>PermissionError\<close> when the
  operating system refuses the removal, and is \<open>unlink\<close> otherwise.
\<close>

definition os_remove :: "env \<Rightarrow> node \<Rightarrow> string \<Rightarrow> error + node" where
  "os_remove world fs p =
     (case resolve p of
        None \<Rightarrow> Inl FileNotFoundError
      | Some q \<Rightarrow>
          if lookup fs q \<noteq> None \<and> \<not> remove_ok world p then Inl PermissionError
          else unlink fs q)"

text \<open>
  The loop \<^verbatim>\<open>for chunk in response.iter_content(...)\<close>, which writes the chunks that are
  not empty.
\<close>

fun write_chunks :: "env \<Rightarrow> node \<Rightarrow> string \<Rightarrow> event list \<Rightarrow> nat \<Rightarrow> node \<times> (error + unit)" where
  "write_chunks world fs output_path [] written = (fs, Inr ())"
| "write_chunks world fs output_path (StreamError # events) written =
     (fs, Inl ChunkedEncodingError)"
| "write_chunks world fs output_path (Chunk chunk # events) written =
     (if chunk = [] then write_chunks world fs output_path events written
      else if \<not> write_ok world output_path written then (fs, Inl OSError)
      else
        (case file_write fs output_path chunk of
           Inl e \<Rightarrow> (fs, Inl e)
         | Inr fs' \<Rightarrow> write_chunks world fs' output_path events (written + 1)))"

text \<open>
  The body of the \<^verbatim>\<open>try\<close>: the request, \<^verbatim>\<open>raise_for_status\<close> (which raises for a
  status from 400 to 599), and the writing of the body.
\<close>

definition fetch_and_write :: "env \<Rightarrow> node \<Rightarrow> string \<Rightarrow> string \<Rightarrow> node \<times> (error + unit)" where
  "fetch_and_write world fs url output_path =
     (case requests_get world url of
        Inl e \<Rightarrow> (fs, Inl e)
      | Inr response \<Rightarrow>
          if 400 \<le> status_code response \<and> status_code response < 600 then (fs, Inl HTTPError)
          else
            (case open_wb world fs output_path of
               Inl e \<Rightarrow> (fs, Inl e)
             | Inr fs' \<Rightarrow> write_chunks world fs' output_path (iter_content response) 0))"

text \<open>
  \<^verbatim>\<open>download_file\<close> returns the pair \<^verbatim>\<open>(output_path, success)\<close>, or raises what
  \<^verbatim>\<open>os.remove\<close> raises inside the handler.
\<close>

definition download_file ::
  "env \<Rightarrow> node \<Rightarrow> string \<Rightarrow> string \<Rightarrow> node \<times> (error + string \<times> bool)" where
  "download_file world fs url output_path =
     (case fetch_and_write world fs url output_path of
        (fs', Inr _) \<Rightarrow> (fs', Inr (output_path, True))
      | (fs', Inl e) \<Rightarrow>
          if os_path_exists fs' output_path then
            (case os_remove world fs' output_path of
               Inl e' \<Rightarrow> (fs', Inl e')
             | Inr fs'' \<Rightarrow> (fs'', Inr (output_path, False)))
          else (fs', Inr (output_path, False)))"

definition download_worker ::
  "env \<Rightarrow> node \<Rightarrow> string \<times> string \<Rightarrow> node \<times> (error + string \<times> bool)" where
  "download_worker world fs args =
     (case args of (url, output_path) \<Rightarrow> download_file world fs url output_path)"

section \<open>\<^verbatim>\<open>scrape_taxi_data\<close>\<close>

text \<open>
  The calendar date \<^verbatim>\<open>datetime.now()\<close> gives. The program reads it once for the year
  and again at every month of the current year; the model takes the date as not changing
  while the tasks are planned, so all readings are this one value.
\<close>

record clock =
  now_year :: int
  now_month :: int

definition base_url :: string where
  "base_url = ''https://d37ci6vzurychx.cloudfront.net/trip-data''"

definition base_path :: string where
  "base_path = ''data/taxi_data''"

text \<open>
  The loop over \<^verbatim>\<open>range(1, 13)\<close> and the loop over
  \<^verbatim>\<open>range(start_year, end_year + 1)\<close>. The state of both is the file system and the list
  \<^verbatim>\<open>download_tasks\<close>; an exception of \<^verbatim>\<open>os.makedirs\<close> ends the run.
\<close>

fun month_loop ::
  "clock \<Rightarrow> (string \<times> int \<times> int) set \<Rightarrow> string \<Rightarrow> string \<Rightarrow> int \<Rightarrow> int \<Rightarrow> int list
     \<Rightarrow> node \<times> (string \<times> string) list \<Rightarrow> error + node \<times> (string \<times> string) list" where
  "month_loop now existing_downloads data_type year_path year current_year []
     (fs, download_tasks) = Inr (fs, download_tasks)"
| "month_loop now existing_downloads data_type year_path year current_year (month # months)
     (fs, download_tasks) =
     (if year = current_year \<and> month > now_month now then
        month_loop now existing_downloads data_type year_path year current_year months
          (fs, download_tasks)
      else if (data_type, year, month) \<in> existing_downloads then
        month_loop now existing_downloads data_type year_path year current_year months
          (fs, download_tasks)
      else
        (let month_str = zfill 2 (py_str month);
             month_path = os_path_join year_path month_str
         in case create_directory_structure fs month_path of
              Inl e \<Rightarrow> Inl e
            | Inr fs' \<Rightarrow>
                (let file_name =
                       data_type @ ''_tripdata_'' @ py_str year @ ''-'' @ month_str @ ''.parquet'';
                     url =
                       base_url @ ''/'' @ data_type @ ''_tripdata_'' @ py_str year @ ''-''
                         @ month_str @ ''.parquet'';
                     output_path = os_path_join month_path file_name
                 in month_loop now existing_downloads data_type year_path year current_year
                      months (fs', download_tasks @ [(url, output_path)]))))"

fun year_loop ::
  "clock \<Rightarrow> (string \<times> int \<times> int) set \<Rightarrow> string \<Rightarrow> int \<Rightarrow> int list
     \<Rightarrow> node \<times> (string \<times> string) list \<Rightarrow> error + node \<times> (string \<times> string) list" where
  "year_loop now existing_downloads data_type current_year [] (fs, download_tasks) =
     Inr (fs, download_tasks)"
| "year_loop now existing_downloads data_type current_year (year # years) (fs, download_tasks) =
     (let year_path = os_path_join base_path (py_str year)
      in case create_directory_structure fs year_path of
           Inl e \<Rightarrow> Inl e
         | Inr fs' \<Rightarrow>
             (case month_loop now existing_downloads data_type year_path year current_year
                     [1..12] (fs', download_tasks) of
                Inl e \<Rightarrow> Inl e
              | Inr state \<Rightarrow> year_loop now existing_downloads data_type current_year years state))"

declare month_loop.simps(2) [simp del] year_loop.simps(2) [simp del]

text \<open>
  The planning part of \<^verbatim>\<open>scrape_taxi_data\<close>: from the reading of the current year to
  the end of the loop that fills \<^verbatim>\<open>download_tasks\<close>.
\<close>

definition plan_downloads ::
  "clock \<Rightarrow> (string \<times> int \<times> int) set \<Rightarrow> node \<Rightarrow> int \<Rightarrow> int \<Rightarrow> string
     \<Rightarrow> error + node \<times> (string \<times> string) list" where
  "plan_downloads now existing_downloads fs start_year end_year data_type =
     (let current_year = now_year now;
          end_year' = min end_year current_year
      in year_loop now existing_downloads data_type current_year [start_year..end_year'] (fs, []))"

text \<open>
  The thread pool. Every task is submitted and runs \<^verbatim>\<open>download_worker\<close>; its future
  holds the pair the worker returned or the exception it raised. The workers are run
  here one after the other, in the order of submission, and the futures are handed on
  in that order: how many run at a time, and in which order they finish, is not part of
  this model. \<^verbatim>\<open>ThreadPoolExecutor\<close> raises \<^verbatim>\<open>ValueError\<close> for a number of workers that
  is not positive.
\<close>

fun run_tasks ::
  "env \<Rightarrow> node \<Rightarrow> (string \<times> string) list \<Rightarrow> node \<times> (error + string \<times> bool) list" where
  "run_tasks world fs [] = (fs, [])"
| "run_tasks world fs (task # tasks) =
     (case download_worker world fs task of
        (fs', future) \<Rightarrow>
          (case run_tasks world fs' tasks of
             (fs'', futures) \<Rightarrow> (fs'', future # futures)))"

text \<open>
  The loop over \<^verbatim>\<open>as_completed(future_to_url)\<close>: \<^verbatim>\<open>future.result()\<close> returns the pair
  of the worker or raises its exception again, which leaves the loop. The counters start
  at zero.
\<close>

fun aggregate :: "(error + string \<times> bool) list \<Rightarrow> nat \<times> nat \<Rightarrow> error + nat \<times> nat" where
  "aggregate [] (successful, failed) = Inr (successful, failed)"
| "aggregate (Inl e # futures) (successful, failed) = Inl e"
| "aggregate (Inr (output_path, success) # futures) (successful, failed) =
     (if success then aggregate futures (successful + 1, failed)
      else aggregate futures (successful, failed + 1))"

text \<open>
  What a run that returns leaves behind. \<open>printed\<close> is what it wrote to the terminal: that
  all files exist already, or the number of files found and the two counters. The other
  fields are the file system at the end and the values of the locals
  \<^verbatim>\<open>existing_downloads\<close> and \<^verbatim>\<open>download_tasks\<close> and of the futures, kept so that
  statements about a run can refer to them.
\<close>

datatype report = NothingToDownload | DownloadComplete nat nat nat

record run =
  files_after :: node
  scanned :: "(string \<times> int \<times> int) set"
  planned :: "(string \<times> string) list"
  completed :: "(error + string \<times> bool) list"
  printed :: report

definition scrape_taxi_data ::
  "env \<Rightarrow> clock \<Rightarrow> node \<Rightarrow> int \<Rightarrow> int \<Rightarrow> string \<Rightarrow> int \<Rightarrow> error + run" where
  "scrape_taxi_data world now fs start_year end_year data_type max_workers =
     (case create_directory_structure fs base_path of
        Inl e \<Rightarrow> Inl e
      | Inr fs1 \<Rightarrow>
          (case get_existing_downloads fs1 base_path of
             Inl e \<Rightarrow> Inl e
           | Inr existing \<Rightarrow>
               (case plan_downloads now existing fs1 start_year end_year data_type of
                  Inl e \<Rightarrow> Inl e
                | Inr (fs2, tasks) \<Rightarrow>
                    if tasks = [] then
                      Inr \<lparr>files_after = fs2, scanned = existing, planned = tasks,
                           completed = [], printed = NothingToDownload\<rparr>
                    else if max_workers \<le> 0 then Inl ValueError
                    else
                      (case run_tasks world fs2 tasks of
                         (fs3, futures) \<Rightarrow>
                           (case aggregate futures (0, 0) of
                              Inl e \<Rightarrow> Inl e
                            | Inr (successful, failed) \<Rightarrow>
                                Inr \<lparr>files_after = fs3, scanned = existing,
                                     planned = tasks, completed = futures,
                                     printed = DownloadComplete (length tasks) successful failed\<rparr>)))))"

chapter \<open>Vocabulary of the specification\<close>

section \<open>What a directory tree holds\<close>

text \<open>
  The names a directory lists, and the records of the data files present below a base
  directory, in the words of the specification: one record for every file with the data
  suffix in a directory named by an integer inside a directory named by an integer. The
  category is the part of the file name before its first underscore, the year and the
  month are the integers the two directories are named by.
\<close>

definition entries :: "node \<Rightarrow> string \<Rightarrow> string set" where
  "entries fs p = (case os_listdir fs p of Inl e \<Rightarrow> {} | Inr names \<Rightarrow> set names)"

definition records_present :: "node \<Rightarrow> string \<Rightarrow> (string \<times> int \<times> int) set" where
  "records_present fs base =
     {(split_first file, year, month) |year_dir month_dir file year month.
        year_dir \<in> entries fs base
      \<and> os_path_isdir fs (os_path_join base year_dir)
      \<and> py_int year_dir = Some year
      \<and> month_dir \<in> entries fs (os_path_join base year_dir)
      \<and> os_path_isdir fs (os_path_join (os_path_join base year_dir) month_dir)
      \<and> py_int month_dir = Some month
      \<and> file \<in> entries fs (os_path_join (os_path_join base year_dir) month_dir)
      \<and> endswith file ''.parquet''}"

text \<open>The same records, one directory at a time, as the loops of the scanner meet them.\<close>

definition month_records :: "node \<Rightarrow> string \<Rightarrow> int \<Rightarrow> string \<Rightarrow> (string \<times> int \<times> int) set" where
  "month_records fs year_path year month_dir =
     (if os_path_isdir fs (os_path_join year_path month_dir)
      then (case py_int month_dir of
              None \<Rightarrow> {}
            | Some month \<Rightarrow>
                {(split_first file, year, month) |file.
                   file \<in> entries fs (os_path_join year_path month_dir)
                   \<and> endswith file ''.parquet''})
      else {})"

definition year_records :: "node \<Rightarrow> string \<Rightarrow> string \<Rightarrow> (string \<times> int \<times> int) set" where
  "year_records fs base year_dir =
     (if os_path_isdir fs (os_path_join base year_dir)
      then (case py_int year_dir of
              None \<Rightarrow> {}
            | Some year \<Rightarrow>
                (\<Union>month_dir \<in> entries fs (os_path_join base year_dir).
                   month_records fs (os_path_join base year_dir) year month_dir))
      else {})"

section \<open>Tasks and the months they stand for\<close>

text \<open>
  The directory of a year, the directory of a month and the task of a month, as the body
  of the planning loop computes them; \<open>skipped\<close> is the disjunction of the two tests
  that make the loop continue with the next month.
\<close>

definition year_path_of :: "int \<Rightarrow> string" where
  "year_path_of year = os_path_join base_path (py_str year)"

definition month_path_of :: "int \<Rightarrow> int \<Rightarrow> string" where
  "month_path_of year month = os_path_join (year_path_of year) (zfill 2 (py_str month))"

definition download_task :: "string \<Rightarrow> int \<Rightarrow> int \<Rightarrow> string \<times> string" where
  "download_task data_type year month =
     (let month_str = zfill 2 (py_str month);
          file_name = data_type @ ''_tripdata_'' @ py_str year @ ''-'' @ month_str @ ''.parquet'';
          url = base_url @ ''/'' @ data_type @ ''_tripdata_'' @ py_str year @ ''-''
                  @ month_str @ ''.parquet''
      in (url, os_path_join (month_path_of year month) file_name))"

text \<open>The name of the file of a month, as the planner builds it.\<close>

definition file_name_of :: "string \<Rightarrow> int \<Rightarrow> int \<Rightarrow> string" where
  "file_name_of data_type year month =
     data_type @ ''_tripdata_'' @ py_str year @ ''-'' @ zfill 2 (py_str month) @ ''.parquet''"

definition skipped :: "clock \<Rightarrow> (string \<times> int \<times> int) set \<Rightarrow> string \<Rightarrow> int \<Rightarrow> int \<Rightarrow> bool" where
  "skipped now existing data_type year month \<longleftrightarrow>
     (year = now_year now \<and> month > now_month now) \<or> (data_type, year, month) \<in> existing"

definition wanted_months ::
  "clock \<Rightarrow> (string \<times> int \<times> int) set \<Rightarrow> string \<Rightarrow> int \<Rightarrow> int list \<Rightarrow> int list" where
  "wanted_months now existing data_type year months =
     filter (\<lambda>month. \<not> skipped now existing data_type year month) months"

definition wanted ::
  "clock \<Rightarrow> (string \<times> int \<times> int) set \<Rightarrow> string \<Rightarrow> int list \<Rightarrow> (int \<times> int) list" where
  "wanted now existing data_type years =
     concat (map (\<lambda>year. map (Pair year) (wanted_months now existing data_type year [1..12])) years)"

text \<open>The records of the months a list of tasks stands for.\<close>

definition task_records :: "string \<Rightarrow> (string \<times> string) list \<Rightarrow> (string \<times> int \<times> int) set" where
  "task_records data_type tasks =
     {(data_type, year, month) |year month. download_task data_type year month \<in> set tasks}"

text \<open>
  The requested grid without the months that lie in the future: every month from one to
  twelve of every year from the start year to the end year, unless the year is after the
  current year or the month is after the current month of the current year.
\<close>

definition in_future :: "clock \<Rightarrow> int \<Rightarrow> int \<Rightarrow> bool" where
  "in_future now year month \<longleftrightarrow>
     year > now_year now \<or> (year = now_year now \<and> month > now_month now)"

definition requested_grid :: "clock \<Rightarrow> int \<Rightarrow> int \<Rightarrow> string \<Rightarrow> (string \<times> int \<times> int) set" where
  "requested_grid now start_year end_year data_type =
     {(data_type, year, month) |year month.
        start_year \<le> year \<and> year \<le> end_year \<and> 1 \<le> month \<and> month \<le> 12
        \<and> \<not> in_future now year month}"

text \<open>
  The records of the planned tasks of a run whose future holds the given flag: with
  \<open>True\<close> the tasks that downloaded, with \<open>False\<close> the tasks that failed.
\<close>

definition finished_records :: "string \<Rightarrow> bool \<Rightarrow> run \<Rightarrow> (string \<times> int \<times> int) set" where
  "finished_records data_type success r =
     {(data_type, year, month) |year month.
        download_task data_type year month \<in> set (planned r)
        \<and> Inr (snd (download_task data_type year month), success) \<in> set (completed r)}"

section \<open>How the file system changes\<close>

text \<open>
  The components of the two kinds of directory the planner makes, and two relations
  between the file system before and after a step. \<open>made_dirs fs ps fs'\<close>: nothing
  changed but directories on the way to a path of \<open>ps\<close>, which are directories afterwards
  and were directories or missing before. \<open>same_dirs fs fs'\<close>: the directories are the
  same.
\<close>

definition year_parts :: "int \<Rightarrow> string list" where
  "year_parts year = [''data'', ''taxi_data'', py_str year]"

definition month_parts :: "int \<Rightarrow> int \<Rightarrow> string list" where
  "month_parts year month = [''data'', ''taxi_data'', py_str year, zfill 2 (py_str month)]"

definition planned_dirs ::
  "clock \<Rightarrow> (string \<times> int \<times> int) set \<Rightarrow> string \<Rightarrow> int list \<Rightarrow> string list set" where
  "planned_dirs now existing data_type years =
     year_parts ` set years
       \<union> (\<lambda>(year, month). month_parts year month) ` set (wanted now existing data_type years)"

definition made_dirs :: "node \<Rightarrow> string list set \<Rightarrow> node \<Rightarrow> bool" where
  "made_dirs fs ps fs' \<longleftrightarrow>
     (\<forall>q. (\<forall>p\<in>ps. \<not> prefix q p) \<longrightarrow> lookup fs' q = lookup fs q) \<and>
     (\<forall>q. lookup fs' q = lookup fs q \<or>
          (is_dir_node (lookup fs' q) \<and> (lookup fs q = None \<or> is_dir_node (lookup fs q))))"

definition same_dirs :: "node \<Rightarrow> node \<Rightarrow> bool" where
  "same_dirs fs fs' \<longleftrightarrow> (\<forall>q. is_dir_node (lookup fs' q) = is_dir_node (lookup fs q))"

definition digits_value :: "nat \<Rightarrow> string \<Rightarrow> nat" where
  "digits_value acc s = foldl (\<lambda>a c. 10 * a + digit_val c) acc s"

section \<open>What decides a download\<close>

text \<open>
  The two things the flag of a task depends on. \<open>transfer_ok\<close>: the request is answered,
  the status is below 400 or above 599, the body arrives to its end and every write goes
  through. \<open>can_open\<close>: the destination can be opened for writing, that is, its parent is
  a directory, the destination itself is not one, and the operating system lets the
  process open it.
\<close>

fun chunks_ok :: "env \<Rightarrow> string \<Rightarrow> event list \<Rightarrow> nat \<Rightarrow> bool" where
  "chunks_ok world output_path [] written = True"
| "chunks_ok world output_path (StreamError # events) written = False"
| "chunks_ok world output_path (Chunk chunk # events) written =
     (if chunk = [] then chunks_ok world output_path events written
      else write_ok world output_path written \<and> chunks_ok world output_path events (written + 1))"

definition transfer_ok :: "env \<Rightarrow> string \<Rightarrow> string \<Rightarrow> bool" where
  "transfer_ok world url output_path =
     (case requests_get world url of
        Inl e \<Rightarrow> False
      | Inr response \<Rightarrow>
          \<not> (400 \<le> status_code response \<and> status_code response < 600)
          \<and> chunks_ok world output_path (iter_content response) 0)"

definition can_open :: "env \<Rightarrow> node \<Rightarrow> string \<Rightarrow> bool" where
  "can_open world fs output_path =
     (case resolve output_path of
        None \<Rightarrow> False
      | Some p \<Rightarrow>
          p \<noteq> [] \<and> is_dir_node (lookup fs (butlast p)) \<and> \<not> is_dir_node (lookup fs p)
          \<and> open_ok world output_path)"

section \<open>Sample data\<close>

text \<open>
  A network in which the file of February 2023 is answered with status 404, the file of
  March 2023 breaks off after its first chunk, and every other file arrives in two
  chunks with an empty one between them; a network in which every file arrives; two
  directory trees; and two runs of the program for the year 2023, in March 2023: on the
  first tree with the first network, and on an empty directory with the second. In both
  worlds the operating system refuses nothing.
\<close>

definition flaky_world :: env where
  "flaky_world =
     \<lparr>requests_get = (\<lambda>url.
        if url = ''https://d37ci6vzurychx.cloudfront.net/trip-data/yellow_tripdata_2023-02.parquet''
        then Inr \<lparr>status_code = 404, iter_content = []\<rparr>
        else if url = ''https://d37ci6vzurychx.cloudfront.net/trip-data/yellow_tripdata_2023-03.parquet''
        then Inr \<lparr>status_code = 200, iter_content = [Chunk ''PAR1'', StreamError]\<rparr>
        else Inr \<lparr>status_code = 200, iter_content = [Chunk ''PAR1'', Chunk [], Chunk ''data'']\<rparr>),
      write_ok = (\<lambda>output_path written. True),
      open_ok = (\<lambda>output_path. True),
      remove_ok = (\<lambda>output_path. True)\<rparr>"

definition sample_files :: node where
  "sample_files =
     Dir [(''data'', Dir [(''taxi_data'', Dir [(''2022'', Dir [(''05'',
       Dir [(''green_tripdata_2022-05.parquet'', File ''PAR1'')])])])])]"

definition sample_run :: run where
  "sample_run =
     \<lparr>files_after =
        Dir [(''data'', Dir [(''taxi_data'',
          Dir [(''2022'', Dir [(''05'', Dir [(''green_tripdata_2022-05.parquet'', File ''PAR1'')])]),
               (''2023'', Dir [(''01'', Dir [(''yellow_tripdata_2023-01.parquet'', File ''PAR1data'')]),
                               (''02'', Dir []),
                               (''03'', Dir [])])])])],
      scanned = {(''green'', 2022, 5)},
      planned = [download_task ''yellow'' 2023 1, download_task ''yellow'' 2023 2,
                 download_task ''yellow'' 2023 3],
      completed = [Inr (''data/taxi_data/2023/01/yellow_tripdata_2023-01.parquet'', True),
                   Inr (''data/taxi_data/2023/02/yellow_tripdata_2023-02.parquet'', False),
                   Inr (''data/taxi_data/2023/03/yellow_tripdata_2023-03.parquet'', False)],
      printed = DownloadComplete 3 1 2\<rparr>"

definition reliable_world :: env where
  "reliable_world =
     \<lparr>requests_get = (\<lambda>url. Inr \<lparr>status_code = 200, iter_content = [Chunk ''PAR1'']\<rparr>),
      write_ok = (\<lambda>output_path written. True),
      open_ok = (\<lambda>output_path. True),
      remove_ok = (\<lambda>output_path. True)\<rparr>"

definition all_success_run :: run where
  "all_success_run =
     \<lparr>files_after =
        Dir [(''data'', Dir [(''taxi_data'',
          Dir [(''2023'', Dir [(''01'', Dir [(''yellow_tripdata_2023-01.parquet'', File ''PAR1'')]),
                               (''02'', Dir [(''yellow_tripdata_2023-02.parquet'', File ''PAR1'')]),
                               (''03'', Dir [(''yellow_tripdata_2023-03.parquet'', File ''PAR1'')])])])])],
      scanned = {},
      planned = [download_task ''yellow'' 2023 1, download_task ''yellow'' 2023 2,
                 download_task ''yellow'' 2023 3],
      completed = [Inr (''data/taxi_data/2023/01/yellow_tripdata_2023-01.parquet'', True),
                   Inr (''data/taxi_data/2023/02/yellow_tripdata_2023-02.parquet'', True),
                   Inr (''data/taxi_data/2023/03/yellow_tripdata_2023-03.parquet'', True)],
      printed = DownloadComplete 3 3 0\<rparr>"

definition cluttered_files :: node where
  "cluttered_files =
     Dir [(''data'', Dir [(''taxi_data'',
       Dir [(''2020'', Dir [(''01'', Dir [(''yellow_tripdata_2020-01.parquet'', File ''PAR1''),
                                          (''yellow_copy.parquet'', File ''PAR1''),
                                          (''green_tripdata_2020-01.parquet'', File []),
                                          (''notes.txt'', File ''x'')]),
                            (''tmp'', Dir [(''fhv_tripdata_2020-02.parquet'', File ''PAR1'')]),
                            (''readme.parquet'', File ''x'')]),
            (''backup'', Dir [(''01'', Dir [(''fhv_tripdata_2019-01.parquet'', File ''PAR1'')])]),
            (''2021'', Dir [(''05'', Dir [(''yellow_tripdata_2020-01.parquet'', File ''PAR1'')])]),
            (''index.parquet'', File ''x'')])])]"

text \<open>
  A directory of January 2023 that holds its data file already, and a world in which
  every file arrives and the process has no right to write to that directory or to that
  file: the operating system lets it neither open the file for writing nor remove it.
  The directory of February is empty, and nothing is refused there.
\<close>

definition protected_files :: node where
  "protected_files =
     Dir [(''data'', Dir [(''taxi_data'', Dir [(''2023'',
       Dir [(''01'', Dir [(''yellow_tripdata_2023-01.parquet'', File ''PAR1'')]),
            (''02'', Dir [])])])])]"

definition protected_world :: env where
  "protected_world =
     \<lparr>requests_get = (\<lambda>url. Inr \<lparr>status_code = 200, iter_content = [Chunk ''PAR1'']\<rparr>),
      write_ok = (\<lambda>output_path written. True),
      open_ok = (\<lambda>output_path.
        output_path \<noteq> ''data/taxi_data/2023/01/yellow_tripdata_2023-01.parquet''),
      remove_ok = (\<lambda>output_path.
        output_path \<noteq> ''data/taxi_data/2023/01/yellow_tripdata_2023-01.parquet'')\<rparr>"

text \<open>
  The first network again, in a world in which the operating system lets the process
  create and write every file and refuses every removal, as in a directory that is
  marked append-only.
\<close>

definition append_only_world :: env where
  "append_only_world = flaky_world\<lparr>remove_ok := (\<lambda>output_path. False)\<rparr>"

chapter \<open>Properties\<close>

section \<open>Integers and their strings\<close>

lemma less_ten_cases:
  "d < 10 \<Longrightarrow> d = 0 \<or> d = 1 \<or> d = 2 \<or> d = 3 \<or> d = 4 \<or> d = 5 \<or> d = 6 \<or> d = 7 \<or> d = 8 \<or> d = (9::nat)"
  by arith

lemma digit_char_is_digit: "d < 10 \<Longrightarrow> is_digit (digit_char d)"
  using less_ten_cases [of d] by (auto simp: digit_char_def is_digit_def)

lemma digit_val_digit_char: "d < 10 \<Longrightarrow> digit_val (digit_char d) = d"
  using less_ten_cases [of d] by (auto simp: digit_char_def digit_val_def)

lemma digits_all_digits: "c \<in> set (digits n) \<Longrightarrow> is_digit c"
proof (induction n rule: digits.induct)
  case (1 n)
  show ?case
  proof (cases "n < 10")
    case True
    then show ?thesis using "1.prems" by (simp add: digits.simps [of n] digit_char_is_digit)
  next
    case False
    then show ?thesis using "1.prems" "1.IH"
      by (auto simp: digits.simps [of n] digit_char_is_digit)
  qed
qed

lemma digits_nonempty: "digits n \<noteq> []"
  by (simp add: digits.simps [of n])

lemma digits_value_digits: "digits_value 0 (digits n) = n"
proof (induction n rule: digits.induct)
  case (1 n)
  show ?case
  proof (cases "n < 10")
    case True
    then show ?thesis by (simp add: digits.simps [of n] digits_value_def digit_val_digit_char)
  next
    case False
    then have "digits_value 0 (digits (n div 10)) = n div 10" using "1.IH" by simp
    then show ?thesis using False
      by (simp add: digits.simps [of n] digits_value_def digit_val_digit_char)
  qed
qed

lemma parse_digits_all_digits:
  "(\<And>c. c \<in> set xs \<Longrightarrow> is_digit c) \<Longrightarrow> parse_digits acc xs = Some (digits_value acc xs)"
  by (induction xs arbitrary: acc) (auto simp: digits_value_def)

lemma parse_unsigned_digits: "parse_unsigned (digits n) = Some n"
proof -
  obtain c cs where s: "digits n = c # cs" using digits_nonempty [of n] by (cases "digits n") auto
  have all: "\<And>x. x \<in> set (c # cs) \<Longrightarrow> is_digit x" using digits_all_digits [of _ n] s by simp
  then have c: "is_digit c" by simp
  have "parse_unsigned (c # cs) = parse_digits (digit_val c) cs" using c by (simp add: parse_unsigned_def)
  also have "\<dots> = parse_digits 0 (c # cs)" using c by simp
  also have "\<dots> = Some (digits_value 0 (c # cs))" using all by (rule parse_digits_all_digits)
  finally show ?thesis using digits_value_digits [of n] by (simp add: s)
qed

lemma is_digit_not_space: "is_digit c \<Longrightarrow> \<not> is_space c"
  by (auto simp: is_digit_def is_space_def)

lemma is_digit_not_special:
  "is_digit c \<Longrightarrow> c \<noteq> CHR ''/'' \<and> c \<noteq> CHR ''-'' \<and> c \<noteq> CHR ''+'' \<and> c \<noteq> CHR ''.'' \<and> c \<noteq> CHR ''_''"
  by (auto simp: is_digit_def)

lemma strip_id:
  "s \<noteq> [] \<Longrightarrow> \<not> is_space (hd s) \<Longrightarrow> \<not> is_space (last s) \<Longrightarrow> strip s = s"
proof -
  assume a: "s \<noteq> []" "\<not> is_space (hd s)" "\<not> is_space (last s)"
  have 1: "dropWhile is_space s = s" using a by (cases s) auto
  have "rev s \<noteq> []" "\<not> is_space (hd (rev s))" using a by (auto simp: hd_rev)
  then have 2: "dropWhile is_space (rev s) = rev s" by (cases "rev s") auto
  show ?thesis by (simp add: strip_def 1 2)
qed

lemma hd_digits: "is_digit (hd (digits n))"
  using digits_all_digits [of "hd (digits n)" n] digits_nonempty [of n] by simp

lemma last_digits: "is_digit (last (digits n))"
  using digits_all_digits [of "last (digits n)" n] digits_nonempty [of n] by simp

lemma py_int_signed_digits:
  "py_int (CHR ''-'' # digits n) = Some (- int n)"
proof -
  have "\<not> is_space (last (digits n))" using last_digits [of n] by (rule is_digit_not_space)
  moreover have "\<not> is_space CHR ''-''" by (simp add: is_space_def)
  ultimately have "strip (CHR ''-'' # digits n) = CHR ''-'' # digits n"
    using digits_nonempty [of n] by (intro strip_id) simp_all
  then show ?thesis by (simp add: py_int_def parse_unsigned_digits)
qed

lemma py_int_digits: "py_int (digits n) = Some (int n)"
proof -
  obtain c cs where s: "digits n = c # cs" using digits_nonempty [of n] by (cases "digits n") auto
  have c: "is_digit c" using hd_digits [of n] s by simp
  have "strip (digits n) = digits n"
    using last_digits [of n] hd_digits [of n] digits_nonempty [of n]
    by (intro strip_id) (simp_all add: is_digit_not_space)
  then show ?thesis
    using is_digit_not_special [OF c] parse_unsigned_digits [of n]
    by (simp add: py_int_def s)
qed

lemma py_int_py_str: "py_int (py_str i) = Some i"
  by (simp add: py_str_def py_int_signed_digits py_int_digits)

lemma py_str_inj: "py_str i = py_str j \<Longrightarrow> i = j"
  by (metis py_int_py_str option.inject)

lemma py_str_chars: "c \<in> set (py_str i) \<Longrightarrow> is_digit c \<or> c = CHR ''-''"
  by (auto simp: py_str_def dest: digits_all_digits split: if_splits)

lemma py_str_nonempty: "py_str i \<noteq> []"
  by (simp add: py_str_def digits_nonempty)

lemma length_digits: "length (digits n) = (if n < 10 then 1 else Suc (length (digits (n div 10))))"
  by (simp add: digits.simps [of n])

lemma zfill_py_str:
  "zfill 2 (py_str m) = (if 0 \<le> m \<and> m < 10 then CHR ''0'' # py_str m else py_str m)"
proof (cases "0 \<le> m \<and> m < 10")
  case True
  then have "nat m < 10" by linarith
  then have d: "digits (nat m) = [digit_char (nat m)]" by (simp add: digits.simps [of "nat m"])
  have "is_digit (digit_char (nat m))" using True by (intro digit_char_is_digit) auto
  then show ?thesis using True is_digit_not_special [of "digit_char (nat m)"]
    by (simp add: zfill_def py_str_def d)
next
  case False
  then have "2 \<le> length (py_str m)"
  proof (cases "m < 0")
    case True
    then show ?thesis using digits_nonempty [of "nat (- m)"]
      by (cases "digits (nat (- m))") (auto simp: py_str_def)
  next
    case nonneg: False
    then have "\<not> nat m < 10" using False by auto
    then show ?thesis using nonneg digits_nonempty [of "nat m div 10"]
      by (cases "digits (nat m div 10)") (auto simp: py_str_def length_digits [of "nat m"])
  qed
  then show ?thesis using False by (simp add: zfill_def)
qed

lemma py_int_leading_zero: "py_int (CHR ''0'' # digits n) = Some (int n)"
proof -
  have z: "is_digit CHR ''0''" by (simp add: is_digit_def)
  have "\<not> is_space (last (digits n))" using last_digits [of n] by (rule is_digit_not_space)
  moreover have "\<not> is_space CHR ''0''" using z by (rule is_digit_not_space)
  ultimately have "strip (CHR ''0'' # digits n) = CHR ''0'' # digits n"
    using digits_nonempty [of n] by (intro strip_id) simp_all
  moreover have "parse_unsigned (CHR ''0'' # digits n) = Some n"
  proof -
    have "parse_unsigned (CHR ''0'' # digits n) = parse_digits 0 (digits n)"
      using z by (simp add: parse_unsigned_def digit_val_def)
    also have "\<dots> = Some (digits_value 0 (digits n))"
      by (rule parse_digits_all_digits) (rule digits_all_digits)
    finally show ?thesis by (simp add: digits_value_digits)
  qed
  ultimately show ?thesis by (simp add: py_int_def)
qed

lemma py_int_month_str: "py_int (zfill 2 (py_str m)) = Some m"
  by (auto simp: zfill_py_str py_int_py_str) (simp add: py_str_def py_int_leading_zero)

lemma month_str_inj: "zfill 2 (py_str m) = zfill 2 (py_str n) \<Longrightarrow> m = n"
  by (metis py_int_month_str option.inject)

lemma month_str_chars: "c \<in> set (zfill 2 (py_str m)) \<Longrightarrow> is_digit c \<or> c = CHR ''-''"
  by (auto simp: zfill_py_str is_digit_def dest: py_str_chars split: if_splits)

lemma month_str_nonempty: "zfill 2 (py_str m) \<noteq> []"
  by (simp add: zfill_py_str py_str_nonempty)

text \<open>
  A string made of a number, a separator and more determines the number: the digits hold
  no separator.
\<close>

lemma append_sep_eq:
  assumes "c \<notin> set a" and "c \<notin> set a'" and "a @ c # r = a' @ c # r'"
  shows "a = a' \<and> r = r'"
proof -
  have tw: "takeWhile (\<lambda>x. x \<noteq> c) (b @ c # s) = b" if "c \<notin> set b" for b s
    using that by (induction b) auto
  have "takeWhile (\<lambda>x. x \<noteq> c) (a @ c # r) = a"
    using assms(1) by (rule tw)
  moreover have "takeWhile (\<lambda>x. x \<noteq> c) (a' @ c # r') = a'"
    using assms(2) by (rule tw)
  ultimately have "a = a'" using assms(3) by simp
  then show ?thesis using assms(3) by simp
qed

lemma digits_no_dash: "CHR ''-'' \<notin> set (digits n)"
  using digits_all_digits [of "CHR ''-''" n] by (auto simp: is_digit_def)

lemma py_str_dash_split:
  assumes "py_str y @ CHR ''-'' # r = py_str y' @ CHR ''-'' # r'"
  shows "y = y' \<and> r = r'"
proof -
  have neg: "py_str i = CHR ''-'' # digits (nat (- i))" if "i < 0" for i
    using that by (simp add: py_str_def)
  have pos: "py_str i = digits (nat i)" if "\<not> i < 0" for i
    using that by (simp add: py_str_def)
  have hdpos: "hd (py_str i) \<noteq> CHR ''-''" "py_str i \<noteq> []" if "\<not> i < 0" for i
    using that hd_digits [of "nat i"] digits_nonempty [of "nat i"]
    by (auto simp: pos is_digit_def)
  have "py_str y = py_str y' \<and> r = r'"
  proof (cases "y < 0")
    case True
    show ?thesis
    proof (cases "y' < 0")
      case y': True
      have "digits (nat (- y)) @ CHR ''-'' # r = digits (nat (- y')) @ CHR ''-'' # r'"
        using assms by (simp add: neg [OF True] neg [OF y'])
      then have "digits (nat (- y)) = digits (nat (- y')) \<and> r = r'"
        by (intro append_sep_eq [of "CHR ''-''"]) (simp_all add: digits_no_dash)
      then show ?thesis by (simp add: neg [OF True] neg [OF y'])
    next
      case False
      then obtain d ds where "py_str y' = d # ds" "d \<noteq> CHR ''-''"
        using hdpos [of y'] by (cases "py_str y'") auto
      then show ?thesis using assms by (simp add: neg [OF True])
    qed
  next
    case False
    show ?thesis
    proof (cases "y' < 0")
      case True
      obtain d ds where "py_str y = d # ds" "d \<noteq> CHR ''-''"
        using hdpos [OF False] by (cases "py_str y") auto
      then show ?thesis using assms by (simp add: neg [OF True])
    next
      case y': False
      have "digits (nat y) @ CHR ''-'' # r = digits (nat y') @ CHR ''-'' # r'"
        using assms by (simp add: pos [OF False] pos [OF y'])
      then have "digits (nat y) = digits (nat y') \<and> r = r'"
        by (intro append_sep_eq [of "CHR ''-''"]) (simp_all add: digits_no_dash)
      then show ?thesis by (simp add: pos [OF False] pos [OF y'])
    qed
  qed
  then show ?thesis using py_str_inj by blast
qed

section \<open>Path strings\<close>

lemma split_slash_nonempty: "split_slash s \<noteq> []"
  by (induction s) (auto split: list.splits)

lemma split_slash_plain: "CHR ''/'' \<notin> set s \<Longrightarrow> split_slash s = [s]"
  by (induction s) auto

lemma split_slash_append: "split_slash (a @ CHR ''/'' # b) = split_slash a @ split_slash b"
proof (induction a)
  case Nil
  show ?case by simp
next
  case (Cons c a)
  obtain w ws where w: "split_slash a = w # ws"
    using split_slash_nonempty [of a] by (cases "split_slash a") auto
  show ?case by (simp add: Cons.IH w)
qed

lemma components_append: "components (a @ CHR ''/'' # b) = components a @ components b"
  by (simp add: components_def split_slash_append)

lemma components_plain:
  "CHR ''/'' \<notin> set s \<Longrightarrow> s \<noteq> [] \<Longrightarrow> s \<noteq> ''.'' \<Longrightarrow> components s = [s]"
  by (simp add: components_def split_slash_plain)

lemma startswith_slash: "startswith s ''/'' \<longleftrightarrow> s \<noteq> [] \<and> hd s = CHR ''/''"
  by (cases s) (auto simp: startswith_def)

lemma endswith_slash: "endswith s ''/'' \<longleftrightarrow> s \<noteq> [] \<and> last s = CHR ''/''"
proof (cases s rule: rev_cases)
  case Nil
  then show ?thesis by (simp add: endswith_def)
next
  case (snoc ys y)
  then show ?thesis by (auto simp: endswith_def)
qed

lemma py_str_plain:
  "CHR ''/'' \<notin> set (py_str i)" "py_str i \<noteq> ''.''" "hd (py_str i) \<noteq> CHR ''/''"
    "last (py_str i) \<noteq> CHR ''/''"
proof -
  show a: "CHR ''/'' \<notin> set (py_str i)"
    using py_str_chars [of "CHR ''/''" i] by (auto simp: is_digit_def)
  show "py_str i \<noteq> ''.''"
    using py_str_chars [of "CHR ''.''" i] by (auto simp: is_digit_def)
  show "hd (py_str i) \<noteq> CHR ''/''" using a py_str_nonempty [of i] by (metis hd_in_set)
  show "last (py_str i) \<noteq> CHR ''/''" using a py_str_nonempty [of i] by (metis last_in_set)
qed

lemma month_str_plain:
  "CHR ''/'' \<notin> set (zfill 2 (py_str m))" "zfill 2 (py_str m) \<noteq> ''.''"
    "hd (zfill 2 (py_str m)) \<noteq> CHR ''/''" "last (zfill 2 (py_str m)) \<noteq> CHR ''/''"
proof -
  show a: "CHR ''/'' \<notin> set (zfill 2 (py_str m))"
    using month_str_chars [of "CHR ''/''" m] by (auto simp: is_digit_def)
  show "zfill 2 (py_str m) \<noteq> ''.''"
    using month_str_chars [of "CHR ''.''" m] by (auto simp: is_digit_def)
  show "hd (zfill 2 (py_str m)) \<noteq> CHR ''/''"
    using a month_str_nonempty [of m] by (metis hd_in_set)
  show "last (zfill 2 (py_str m)) \<noteq> CHR ''/''"
    using a month_str_nonempty [of m] by (metis last_in_set)
qed

lemma year_path_eq: "year_path_of year = ''data/taxi_data/'' @ py_str year"
  using py_str_plain(3) [of year]
  by (simp add: year_path_of_def os_path_join_def base_path_def startswith_slash endswith_slash)

lemma month_path_eq:
  "month_path_of year month = ''data/taxi_data/'' @ py_str year @ ''/'' @ zfill 2 (py_str month)"
  using month_str_plain(3) [of month] py_str_plain(4) [of year] py_str_nonempty [of year]
  by (simp add: month_path_of_def os_path_join_def year_path_eq startswith_slash endswith_slash)

lemma resolve_year_path: "resolve (year_path_of year) = Some (year_parts year)"
proof -
  have "components (''data/taxi_data'' @ CHR ''/'' # py_str year)
      = components ''data/taxi_data'' @ components (py_str year)"
    by (rule components_append)
  moreover have "components ''data/taxi_data'' = [''data'', ''taxi_data'']"
    by (simp add: components_def)
  moreover have "components (py_str year) = [py_str year]"
    using py_str_plain [of year] py_str_nonempty [of year] by (intro components_plain)
  ultimately show ?thesis by (simp add: resolve_def year_path_eq year_parts_def)
qed

lemma resolve_month_path: "resolve (month_path_of year month) = Some (month_parts year month)"
proof -
  have "month_path_of year month = year_path_of year @ CHR ''/'' # zfill 2 (py_str month)"
    by (simp add: month_path_eq year_path_eq)
  then have "components (month_path_of year month)
      = components (year_path_of year) @ components (zfill 2 (py_str month))"
    by (simp add: components_append)
  moreover have "components (year_path_of year) = year_parts year"
    using resolve_year_path [of year] by (simp add: resolve_def split: if_splits)
  moreover have "components (zfill 2 (py_str month)) = [zfill 2 (py_str month)]"
    using month_str_plain [of month] month_str_nonempty [of month] by (intro components_plain)
  ultimately show ?thesis by (simp add: resolve_def month_path_eq year_parts_def month_parts_def)
qed

lemma endswith_append: "endswith (a @ ending) ending"
  by (simp add: endswith_def)

lemma split_first_file_name:
  "split_first (data_type @ ''_tripdata_'' @ rest) = split_first data_type"
  by (induction data_type) (auto simp: split_first_def)

section \<open>The file system\<close>

subsection \<open>Making directories\<close>

lemma lookup_fresh_dirs:
  "lookup (fresh_dirs p) q = (if prefix q p then Some (fresh_dirs (drop (length q) p)) else None)"
proof (induction p arbitrary: q)
  case Nil
  show ?case by (cases q) auto
next
  case (Cons c p)
  show ?case by (cases q) (auto simp: Cons.IH)
qed

lemma map_of_snoc_fresh:
  "map_of es c = None \<Longrightarrow> map_of (es @ [(c, n)]) d = (if d = c then Some n else map_of es d)"
  by (auto simp: map_add_def split: option.splits)

lemma mkdirs_lookup_other:
  "mkdirs t p = Inr t' \<Longrightarrow> \<not> prefix q p \<Longrightarrow> lookup t' q = lookup t q"
proof (induction p arbitrary: t t' q)
  case Nil
  then show ?case by simp
next
  case (Cons c p)
  obtain es where t: "t = Dir es" using Cons.prems(1) by (cases t) auto
  obtain d q' where q: "q = d # q'" using Cons.prems(2) by (cases q) auto
  show ?case
  proof (cases "map_of es c")
    case None
    then have t': "t' = Dir (es @ [(c, fresh_dirs p)])" using Cons.prems(1) t by simp
    show ?thesis
    proof (cases "d = c")
      case True
      then have "\<not> prefix q' p" using Cons.prems(2) q by simp
      then show ?thesis using None True
        by (simp add: t t' q map_of_snoc_fresh lookup_fresh_dirs del: map_of_append)
    next
      case False
      then show ?thesis using None by (simp add: t t' q map_of_snoc_fresh del: map_of_append)
    qed
  next
    case (Some n)
    then obtain n' where n': "mkdirs n p = Inr n'" and t': "t' = Dir (AList.update c n' es)"
      using Cons.prems(1) t by (auto split: sum.splits)
    show ?thesis
    proof (cases "d = c")
      case True
      then have "\<not> prefix q' p" using Cons.prems(2) q by simp
      then have "lookup n' q' = lookup n q'" using Cons.IH [OF n'] by simp
      then show ?thesis using Some True by (simp add: t t' q update_conv')
    next
      case False
      then show ?thesis by (simp add: t t' q update_conv')
    qed
  qed
qed

lemma is_dir_fresh [simp]: "is_dir_node (Some (fresh_dirs p))"
  by (cases p) auto

lemma mkdirs_lookup_prefix:
  "mkdirs t p = Inr t' \<Longrightarrow> prefix q p \<Longrightarrow> is_dir_node (lookup t' q)"
proof (induction p arbitrary: t t' q)
  case Nil
  then show ?case by simp
next
  case (Cons c p)
  obtain es where t: "t = Dir es" using Cons.prems(1) by (cases t) auto
  show ?case
  proof (cases q)
    case Nil
    then show ?thesis using Cons.prems(1) t by (auto split: option.splits sum.splits)
  next
    case (Cons d q')
    then have d: "d = c" and pq: "prefix q' p" using Cons.prems(2) by auto
    show ?thesis
    proof (cases "map_of es c")
      case None
      then have t': "t' = Dir (es @ [(c, fresh_dirs p)])" using Cons.prems(1) t by simp
      show ?thesis using None pq by (simp add: t' Cons d map_of_snoc_fresh lookup_fresh_dirs del: map_of_append)
    next
      case (Some n)
      then obtain n' where n': "mkdirs n p = Inr n'" and t': "t' = Dir (AList.update c n' es)"
        using Cons.prems(1) t by (auto split: sum.splits)
      show ?thesis using Cons.IH [OF n' pq] by (simp add: t' Cons d update_conv')
    qed
  qed
qed

lemma is_dir_node_iff: "is_dir_node x \<longleftrightarrow> (\<exists>es. x = Some (Dir es))"
  by (cases x rule: is_dir_node.cases) auto

lemma mkdirs_prefix_before:
  "mkdirs t p = Inr t' \<Longrightarrow> prefix q p \<Longrightarrow> lookup t q = None \<or> is_dir_node (lookup t q)"
proof (induction p arbitrary: t t' q)
  case Nil
  then show ?case by simp
next
  case (Cons c p)
  obtain es where t: "t = Dir es" using Cons.prems(1) by (cases t) auto
  show ?case
  proof (cases q)
    case Nil
    then show ?thesis by (simp add: t)
  next
    case q: (Cons d q')
    then have d: "d = c" and pq: "prefix q' p" using Cons.prems(2) by auto
    show ?thesis
    proof (cases "map_of es c")
      case None
      then show ?thesis by (simp add: t q d)
    next
      case (Some n)
      then obtain n' where n': "mkdirs n p = Inr n'"
        using Cons.prems(1) t by (auto split: sum.splits)
      show ?thesis using Cons.IH [OF n' pq] Some by (simp add: t q d)
    qed
  qed
qed

lemma made_dirs_refl: "made_dirs fs {} fs"
  by (simp add: made_dirs_def)

lemma made_dirs_trans:
  assumes "made_dirs fs ps fs1" and "made_dirs fs1 qs fs2"
  shows "made_dirs fs (ps \<union> qs) fs2"
  unfolding made_dirs_def
proof (intro conjI allI impI)
  fix q
  assume "\<forall>p\<in>ps \<union> qs. \<not> prefix q p"
  then show "lookup fs2 q = lookup fs q"
    using assms unfolding made_dirs_def by (metis UnCI)
next
  fix q
  have a: "lookup fs1 q = lookup fs q \<or>
          (is_dir_node (lookup fs1 q) \<and> (lookup fs q = None \<or> is_dir_node (lookup fs q)))"
    using assms(1) unfolding made_dirs_def by blast
  have b: "lookup fs2 q = lookup fs1 q \<or>
          (is_dir_node (lookup fs2 q) \<and> (lookup fs1 q = None \<or> is_dir_node (lookup fs1 q)))"
    using assms(2) unfolding made_dirs_def by blast
  show "lookup fs2 q = lookup fs q \<or>
          (is_dir_node (lookup fs2 q) \<and> (lookup fs q = None \<or> is_dir_node (lookup fs q)))"
    using a b by auto
qed

lemma made_dirs_mono: "made_dirs fs ps fs' \<Longrightarrow> ps \<subseteq> qs \<Longrightarrow> made_dirs fs qs fs'"
  unfolding made_dirs_def by blast

lemma made_dirs_keeps: "made_dirs fs ps fs' \<Longrightarrow> lookup fs q \<noteq> None \<Longrightarrow> lookup fs' q \<noteq> None"
  unfolding made_dirs_def by (metis is_dir_node.simps(2))

lemma made_dirs_keeps_dir:
  "made_dirs fs ps fs' \<Longrightarrow> is_dir_node (lookup fs q) \<Longrightarrow> is_dir_node (lookup fs' q)"
  unfolding made_dirs_def by metis

lemma made_dirs_new_is_dir:
  "made_dirs fs ps fs' \<Longrightarrow> lookup fs q = None \<Longrightarrow> lookup fs' q \<noteq> None
     \<Longrightarrow> is_dir_node (lookup fs' q)"
  unfolding made_dirs_def by metis

lemma made_dirs_frame:
  "made_dirs fs ps fs' \<Longrightarrow> (\<And>p. p \<in> ps \<Longrightarrow> \<not> prefix q p) \<Longrightarrow> lookup fs' q = lookup fs q"
  unfolding made_dirs_def by blast

lemma mkdirs_made_dirs:
  assumes m: "mkdirs fs p = Inr fs'"
  shows "made_dirs fs {p} fs'"
  unfolding made_dirs_def
proof (intro conjI allI impI)
  fix q
  assume "\<forall>p'\<in>{p}. \<not> prefix q p'"
  then have "\<not> prefix q p" by simp
  then show "lookup fs' q = lookup fs q" by (rule mkdirs_lookup_other [OF m])
next
  fix q
  show "lookup fs' q = lookup fs q \<or>
          (is_dir_node (lookup fs' q) \<and> (lookup fs q = None \<or> is_dir_node (lookup fs q)))"
  proof (cases "prefix q p")
    case True
    then show ?thesis using mkdirs_lookup_prefix [OF m True] mkdirs_prefix_before [OF m True]
      by simp
  next
    case False
    then show ?thesis using mkdirs_lookup_other [OF m False] by simp
  qed
qed

lemma create_directory_structure_made:
  assumes "create_directory_structure fs path = Inr fs'" and "resolve path = Some p"
  shows "made_dirs fs {p} fs' \<and> lookup fs' p \<noteq> None"
proof (cases "os_path_exists fs path")
  case True
  then have "fs' = fs" using assms(1) by (simp add: create_directory_structure_def)
  moreover have "lookup fs p \<noteq> None" using True assms(2) by (simp add: os_path_exists_def)
  ultimately show ?thesis using made_dirs_mono [OF made_dirs_refl [of fs], of "{p}"] by simp
next
  case False
  then have m: "mkdirs fs p = Inr fs'"
    using assms by (simp add: create_directory_structure_def os_makedirs_def)
  have "is_dir_node (lookup fs' p)" using mkdirs_lookup_prefix [OF m, of p] by simp
  then have "lookup fs' p \<noteq> None" by (auto simp: is_dir_node_iff)
  then show ?thesis using mkdirs_made_dirs [OF m] by simp
qed

lemma create_directory_structure_present:
  "os_path_exists fs path \<Longrightarrow> create_directory_structure fs path = Inr fs"
  by (simp add: create_directory_structure_def)

subsection \<open>Writing and removing files\<close>

lemma same_dirs_refl: "same_dirs fs fs"
  by (simp add: same_dirs_def)

lemma same_dirs_trans: "same_dirs a b \<Longrightarrow> same_dirs b c \<Longrightarrow> same_dirs a c"
  by (simp add: same_dirs_def)

lemma put_file_lookup: "put_file t p bytes = Inr t' \<Longrightarrow> lookup t' p = Some (File bytes)"
proof (induction p arbitrary: t t')
  case Nil
  then show ?case by (cases t) auto
next
  case (Cons c p)
  obtain es where t: "t = Dir es" using Cons.prems by (cases t) auto
  show ?case
  proof (cases "map_of es c")
    case None
    then show ?thesis using Cons.prems
      by (auto simp: t map_of_snoc_fresh simp del: map_of_append split: if_splits)
  next
    case (Some n)
    then obtain n' where n': "put_file n p bytes = Inr n'" and t': "t' = Dir (AList.update c n' es)"
      using Cons.prems t by (auto split: sum.splits)
    show ?thesis using Cons.IH [OF n'] by (simp add: t' update_conv')
  qed
qed

lemma put_file_dirs:
  "put_file t p bytes = Inr t' \<Longrightarrow> is_dir_node (lookup t' q) = is_dir_node (lookup t q)"
proof (induction p arbitrary: t t' q)
  case Nil
  then show ?case by (cases t; cases q) auto
next
  case (Cons c p)
  obtain es where t: "t = Dir es" using Cons.prems by (cases t) auto
  show ?case
  proof (cases q)
    case Nil
    then show ?thesis using Cons.prems t by (auto split: option.splits sum.splits if_splits)
  next
    case q: (Cons d q')
    show ?thesis
    proof (cases "map_of es c")
      case None
      then have t': "t' = Dir (es @ [(c, File bytes)])"
        using Cons.prems t by (auto split: if_splits)
      show ?thesis using None
        by (cases q') (auto simp: t t' q map_of_snoc_fresh simp del: map_of_append)
    next
      case (Some n)
      then obtain n' where n': "put_file n p bytes = Inr n'" and t': "t' = Dir (AList.update c n' es)"
        using Cons.prems t by (auto split: sum.splits)
      show ?thesis using Cons.IH [OF n', of q'] Some by (simp add: t t' q update_conv')
    qed
  qed
qed

lemma put_file_same_dirs: "put_file t p bytes = Inr t' \<Longrightarrow> same_dirs t t'"
  by (simp add: same_dirs_def put_file_dirs)

lemma unlink_file:
  "lookup t p = Some (File bytes) \<Longrightarrow> p \<noteq> [] \<Longrightarrow> \<exists>t'. unlink t p = Inr t'"
proof (induction p arbitrary: t)
  case Nil
  then show ?case by simp
next
  case (Cons c p)
  obtain es where t: "t = Dir es" using Cons.prems(1) by (cases t) auto
  obtain n where n: "map_of es c = Some n" and l: "lookup n p = Some (File bytes)"
    using Cons.prems(1) t by (auto split: option.splits)
  show ?case
  proof (cases "p = []")
    case True
    then show ?thesis using n l by (simp add: t)
  next
    case False
    then obtain n' where "unlink n p = Inr n'" using Cons.IH [OF l] by blast
    then show ?thesis using n False by (simp add: t)
  qed
qed

lemma unlink_lookup: "unlink t p = Inr t' \<Longrightarrow> lookup t' p = None"
proof (induction p arbitrary: t t')
  case Nil
  then show ?case by simp
next
  case (Cons c p)
  obtain es where t: "t = Dir es" using Cons.prems by (cases t) auto
  obtain n where n: "map_of es c = Some n" using Cons.prems t by (auto split: option.splits)
  show ?case
  proof (cases "p = []")
    case True
    then have "t' = Dir (AList.delete c es)"
      using Cons.prems t n by (auto split: node.splits)
    then show ?thesis by (simp add: delete_conv')
  next
    case False
    then obtain n' where n': "unlink n p = Inr n'" and t': "t' = Dir (AList.update c n' es)"
      using Cons.prems t n by (auto split: sum.splits)
    show ?thesis using Cons.IH [OF n'] by (simp add: t' update_conv')
  qed
qed

lemma unlink_dirs:
  "unlink t p = Inr t' \<Longrightarrow> is_dir_node (lookup t' q) = is_dir_node (lookup t q)"
proof (induction p arbitrary: t t' q)
  case Nil
  then show ?case by simp
next
  case (Cons c p)
  obtain es where t: "t = Dir es" using Cons.prems by (cases t) auto
  obtain n where n: "map_of es c = Some n" using Cons.prems t by (auto split: option.splits)
  show ?case
  proof (cases q)
    case Nil
    then show ?thesis using Cons.prems t n by (auto split: node.splits sum.splits if_splits)
  next
    case q: (Cons d q')
    show ?thesis
    proof (cases "p = []")
      case True
      then obtain b where nf: "n = File b" and t': "t' = Dir (AList.delete c es)"
        using Cons.prems t n by (auto split: node.splits)
      show ?thesis using n nf by (cases q') (auto simp: t t' q delete_conv')
    next
      case False
      then obtain n' where n': "unlink n p = Inr n'" and t': "t' = Dir (AList.update c n' es)"
        using Cons.prems t n by (auto split: sum.splits)
      show ?thesis using Cons.IH [OF n', of q'] n by (simp add: t t' q update_conv')
    qed
  qed
qed

lemma unlink_same_dirs: "unlink t p = Inr t' \<Longrightarrow> same_dirs t t'"
  by (simp add: same_dirs_def unlink_dirs)

subsection \<open>Listing directories\<close>

lemma isdir_listdir:
  "os_path_isdir fs p \<Longrightarrow> \<exists>names. os_listdir fs p = Inr names"
  unfolding os_path_isdir_def os_listdir_def
  by (auto simp: is_dir_node_iff split: option.splits node.splits)

lemma isdir_exists: "os_path_isdir fs p \<Longrightarrow> os_path_exists fs p"
  unfolding os_path_isdir_def os_path_exists_def
  by (auto simp: is_dir_node_iff split: option.splits)

section \<open>The scanner\<close>

text \<open>Each loop adds to its set the records of the directories it went through.\<close>

lemma files_loop_eq:
  "files_loop files year month existing =
     existing \<union> {(split_first file, year, month) |file. file \<in> set files \<and> endswith file ''.parquet''}"
  by (induction files arbitrary: existing) auto

lemma months_loop_eq:
  "months_loop fs year_path year month_dirs existing =
     Inr (existing \<union> (\<Union>month_dir \<in> set month_dirs. month_records fs year_path year month_dir))"
proof (induction month_dirs arbitrary: existing)
  case Nil
  show ?case by simp
next
  case (Cons month_dir month_dirs)
  show ?case
  proof (cases "os_path_isdir fs (os_path_join year_path month_dir)")
    case False
    then show ?thesis by (simp add: Cons.IH month_records_def)
  next
    case True
    then obtain files where files: "os_listdir fs (os_path_join year_path month_dir) = Inr files"
      using isdir_listdir by blast
    then have e: "entries fs (os_path_join year_path month_dir) = set files"
      by (simp add: entries_def)
    show ?thesis
    proof (cases "py_int month_dir")
      case None
      then show ?thesis using True by (simp add: Cons.IH month_records_def)
    next
      case (Some month)
      then show ?thesis using True files
        by (simp add: Cons.IH month_records_def files_loop_eq e Un_assoc)
    qed
  qed
qed

lemma years_loop_eq:
  "years_loop fs base year_dirs existing =
     Inr (existing \<union> (\<Union>year_dir \<in> set year_dirs. year_records fs base year_dir))"
proof (induction year_dirs arbitrary: existing)
  case Nil
  show ?case by simp
next
  case (Cons year_dir year_dirs)
  show ?case
  proof (cases "os_path_isdir fs (os_path_join base year_dir)")
    case False
    then show ?thesis by (simp add: Cons.IH year_records_def)
  next
    case True
    then obtain month_dirs where
      month_dirs: "os_listdir fs (os_path_join base year_dir) = Inr month_dirs"
      using isdir_listdir by blast
    then have e: "entries fs (os_path_join base year_dir) = set month_dirs"
      by (simp add: entries_def)
    show ?thesis
    proof (cases "py_int year_dir")
      case None
      then show ?thesis using True by (simp add: Cons.IH year_records_def)
    next
      case (Some year)
      then show ?thesis using True month_dirs
        by (simp add: Cons.IH year_records_def months_loop_eq e Un_assoc)
    qed
  qed
qed

lemma records_present_eq:
  "records_present fs base = (\<Union>year_dir \<in> entries fs base. year_records fs base year_dir)"
  unfolding records_present_def year_records_def month_records_def
  by (auto split: option.splits if_splits) (force split: option.splits if_splits)+

lemma get_existing_downloads_eq:
  "get_existing_downloads fs base =
     (if os_path_exists fs base \<and> \<not> os_path_isdir fs base
      then Inl NotADirectoryError
      else Inr (records_present fs base))"
proof (cases "os_path_exists fs base")
  case False
  then have "os_listdir fs base = Inl FileNotFoundError"
    unfolding os_path_exists_def os_listdir_def by (auto split: option.splits)
  then have "records_present fs base = {}"
    by (simp add: records_present_eq entries_def)
  then show ?thesis using False by (simp add: get_existing_downloads_def)
next
  case True
  show ?thesis
  proof (cases "os_path_isdir fs base")
    case False
    then have "os_listdir fs base = Inl NotADirectoryError"
      using True unfolding os_path_exists_def os_path_isdir_def os_listdir_def
      by (auto simp: is_dir_node_iff split: option.splits node.splits)
    then show ?thesis using True False by (simp add: get_existing_downloads_def)
  next
    case dir: True
    then obtain year_dirs where yd: "os_listdir fs base = Inr year_dirs"
      using isdir_listdir by blast
    then have "records_present fs base =
        (\<Union>year_dir \<in> set year_dirs. year_records fs base year_dir)"
      by (simp add: records_present_eq entries_def)
    then show ?thesis using True dir yd
      by (simp add: get_existing_downloads_def years_loop_eq)
  qed
qed

lemmas path_eval =
  os_path_exists_def os_path_isdir_def resolve_def components_def os_path_join_def
  startswith_def endswith_def

lemmas scanner_eval =
  get_existing_downloads_def years_loop.simps months_loop.simps files_loop.simps os_listdir_def
  py_int_def strip_def parse_unsigned_def is_space_def is_digit_def digit_val_def split_first_def
  path_eval

lemma cluttered_scan:
  "get_existing_downloads cluttered_files ''data/taxi_data''
     = Inr {(''yellow'', 2020, 1), (''green'', 2020, 1), (''yellow'', 2021, 5)}"
  by (simp add: scanner_eval cluttered_files_def insert_commute)

text \<open>
  Claim C3. For every directory tree and every base path, the scanner returns the set
  of the records present below the base path: one record for each (category, year,
  month) that some file with the suffix \<^verbatim>\<open>.parquet\<close> gives, where the category is the
  part of the file name before its first underscore and the year and the month are the
  integers the two enclosing directories are named by. A directory whose name is not an
  integer and a file without the suffix add nothing. (The scanner raises only when the
  base path names a file.)
\<close>

theorem scanner_returns_records_present:
  "get_existing_downloads fs base =
     (if os_path_exists fs base \<and> \<not> os_path_isdir fs base then Inl NotADirectoryError
      else Inr (records_present fs base))"
  by (rule get_existing_downloads_eq)

theorem scanner_returns_records_present_witness:
  "get_existing_downloads cluttered_files ''data/taxi_data''
     = Inr {(''yellow'', 2020, 1), (''green'', 2020, 1), (''yellow'', 2021, 5)}
   \<and> records_present cluttered_files ''data/taxi_data''
     = {(''yellow'', 2020, 1), (''green'', 2020, 1), (''yellow'', 2021, 5)}"
proof -
  have "Inr (records_present cluttered_files ''data/taxi_data'')
      = (Inr {(''yellow'', 2020, 1), (''green'', 2020, 1), (''yellow'', 2021, 5)}
          :: error + (string \<times> int \<times> int) set)"
    using scanner_returns_records_present [of cluttered_files "''data/taxi_data''"] cluttered_scan
    by (simp split: if_splits)
  then show ?thesis using cluttered_scan by simp
qed

text \<open>
  Claim C9. The year and the month of every record the scanner returns are the integers
  that the names of two nested directories denote, and a file that is named for one year
  and month but stored under directories naming another year and month is recorded under
  the pair of the directories: the date inside the file name is not read.
\<close>

theorem scanner_dates_come_from_directories:
  assumes "get_existing_downloads fs base = Inr existing"
  shows "(\<forall>data_type year month. (data_type, year, month) \<in> existing \<longrightarrow>
            (\<exists>year_dir month_dir file.
                year_dir \<in> entries fs base \<and> py_int year_dir = Some year
              \<and> month_dir \<in> entries fs (os_path_join base year_dir) \<and> py_int month_dir = Some month
              \<and> file \<in> entries fs (os_path_join (os_path_join base year_dir) month_dir)
              \<and> endswith file ''.parquet'' \<and> data_type = split_first file))
    \<and> (\<forall>year_dir month_dir year month data_type named_year named_month.
            year_dir \<in> entries fs base \<and> os_path_isdir fs (os_path_join base year_dir)
          \<and> py_int year_dir = Some year
          \<and> month_dir \<in> entries fs (os_path_join base year_dir)
          \<and> os_path_isdir fs (os_path_join (os_path_join base year_dir) month_dir)
          \<and> py_int month_dir = Some month
          \<and> data_type @ ''_tripdata_'' @ py_str named_year @ ''-'' @ zfill 2 (py_str named_month)
               @ ''.parquet''
              \<in> entries fs (os_path_join (os_path_join base year_dir) month_dir)
          \<longrightarrow> (split_first data_type, year, month) \<in> existing)"
proof -
  have e: "existing = records_present fs base"
    using assms by (simp add: get_existing_downloads_eq split: if_splits)
  show ?thesis
  proof (intro conjI allI impI)
    fix data_type year month
    assume "(data_type, year, month) \<in> existing"
    then show "\<exists>year_dir month_dir file.
                year_dir \<in> entries fs base \<and> py_int year_dir = Some year
              \<and> month_dir \<in> entries fs (os_path_join base year_dir) \<and> py_int month_dir = Some month
              \<and> file \<in> entries fs (os_path_join (os_path_join base year_dir) month_dir)
              \<and> endswith file ''.parquet'' \<and> data_type = split_first file"
      unfolding e records_present_def by blast
  next
    fix year_dir month_dir year month data_type named_year named_month
    let ?file = "data_type @ ''_tripdata_'' @ py_str named_year @ ''-'' @ zfill 2 (py_str named_month)
               @ ''.parquet''"
    assume a: "year_dir \<in> entries fs base \<and> os_path_isdir fs (os_path_join base year_dir)
          \<and> py_int year_dir = Some year
          \<and> month_dir \<in> entries fs (os_path_join base year_dir)
          \<and> os_path_isdir fs (os_path_join (os_path_join base year_dir) month_dir)
          \<and> py_int month_dir = Some month
          \<and> ?file \<in> entries fs (os_path_join (os_path_join base year_dir) month_dir)"
    have "endswith ?file ''.parquet''"
      using endswith_append [of "data_type @ ''_tripdata_'' @ py_str named_year @ ''-''
        @ zfill 2 (py_str named_month)" "''.parquet''"] by simp
    then have "(split_first ?file, year, month) \<in> records_present fs base"
      unfolding records_present_def using a by blast
    moreover have "split_first ?file = split_first data_type" by (rule split_first_file_name)
    ultimately show "(split_first data_type, year, month) \<in> existing" by (simp add: e)
  qed
qed

theorem scanner_dates_come_from_directories_witness:
  "get_existing_downloads cluttered_files ''data/taxi_data''
     = Inr {(''yellow'', 2020, 1), (''green'', 2020, 1), (''yellow'', 2021, 5)}
   \<and> (''yellow'', 2021, 5) \<in> {(''yellow'', 2020 :: int, 1 :: int), (''green'', 2020, 1), (''yellow'', 2021, 5)}
   \<and> (''yellow'', 2020, 1) \<noteq> (''yellow'', 2021 :: int, 5 :: int)
   \<and> (\<exists>year_dir month_dir file.
          year_dir \<in> entries cluttered_files ''data/taxi_data'' \<and> py_int year_dir = Some 2021
        \<and> month_dir \<in> entries cluttered_files (os_path_join ''data/taxi_data'' year_dir)
        \<and> py_int month_dir = Some 5
        \<and> file \<in> entries cluttered_files (os_path_join (os_path_join ''data/taxi_data'' year_dir) month_dir)
        \<and> endswith file ''.parquet'' \<and> ''yellow'' = split_first file)"
  using scanner_dates_come_from_directories [OF cluttered_scan] cluttered_scan by simp

section \<open>The planner\<close>

subsection \<open>The loops\<close>

lemma month_loop_step:
  "month_loop now existing data_type (year_path_of year) year (now_year now) (month # months)
     (fs, tasks) =
     (if skipped now existing data_type year month then
        month_loop now existing data_type (year_path_of year) year (now_year now) months (fs, tasks)
      else
        (case create_directory_structure fs (month_path_of year month) of
           Inl e \<Rightarrow> Inl e
         | Inr fs' \<Rightarrow>
             month_loop now existing data_type (year_path_of year) year (now_year now) months
               (fs', tasks @ [download_task data_type year month])))"
  by (simp add: month_loop.simps(2) skipped_def Let_def month_path_of_def download_task_def
        split: sum.splits)

lemma month_loop_result:
  "month_loop now existing data_type (year_path_of year) year (now_year now) months (fs, tasks)
     = Inr (fs', tasks') \<Longrightarrow>
   tasks' = tasks @ map (download_task data_type year)
                      (wanted_months now existing data_type year months)
   \<and> made_dirs fs (month_parts year ` set (wanted_months now existing data_type year months)) fs'
   \<and> (\<forall>month \<in> set (wanted_months now existing data_type year months).
         lookup fs' (month_parts year month) \<noteq> None)"
proof (induction months arbitrary: fs tasks)
  case Nil
  then show ?case by (simp add: wanted_months_def made_dirs_refl)
next
  case (Cons month months)
  show ?case
  proof (cases "skipped now existing data_type year month")
    case True
    then have "month_loop now existing data_type (year_path_of year) year (now_year now) months
        (fs, tasks) = Inr (fs', tasks')"
      using Cons.prems by (simp add: month_loop_step)
    from Cons.IH [OF this] show ?thesis using True by (simp add: wanted_months_def)
  next
    case False
    then obtain fs1 where c: "create_directory_structure fs (month_path_of year month) = Inr fs1"
      and r: "month_loop now existing data_type (year_path_of year) year (now_year now) months
        (fs1, tasks @ [download_task data_type year month]) = Inr (fs', tasks')"
      using Cons.prems by (auto simp: month_loop_step split: sum.splits)
    have c': "made_dirs fs {month_parts year month} fs1" "lookup fs1 (month_parts year month) \<noteq> None"
      using create_directory_structure_made [OF c resolve_month_path] by auto
    have ih: "tasks' = (tasks @ [download_task data_type year month])
          @ map (download_task data_type year) (wanted_months now existing data_type year months)"
      "made_dirs fs1 (month_parts year ` set (wanted_months now existing data_type year months)) fs'"
      "\<forall>m \<in> set (wanted_months now existing data_type year months).
         lookup fs' (month_parts year m) \<noteq> None"
      using Cons.IH [OF r] by auto
    have w: "wanted_months now existing data_type year (month # months)
        = month # wanted_months now existing data_type year months"
      using False by (simp add: wanted_months_def)
    have "made_dirs fs ({month_parts year month}
        \<union> month_parts year ` set (wanted_months now existing data_type year months)) fs'"
      using made_dirs_trans [OF c'(1) ih(2)] .
    moreover have "lookup fs' (month_parts year month) \<noteq> None"
      using made_dirs_keeps [OF ih(2) c'(2)] .
    ultimately show ?thesis using ih(1) ih(3) by (simp add: w)
  qed
qed

lemma month_loop_all_skipped:
  "(\<And>month. month \<in> set months \<Longrightarrow> skipped now existing data_type year month) \<Longrightarrow>
   month_loop now existing data_type (year_path_of year) year (now_year now) months (fs, tasks)
     = Inr (fs, tasks)"
  by (induction months) (simp_all add: month_loop_step)

lemma year_loop_step:
  "year_loop now existing data_type (now_year now) (year # years) (fs, tasks) =
     (case create_directory_structure fs (year_path_of year) of
        Inl e \<Rightarrow> Inl e
      | Inr fs' \<Rightarrow>
          (case month_loop now existing data_type (year_path_of year) year (now_year now)
                  [1..12] (fs', tasks) of
             Inl e \<Rightarrow> Inl e
           | Inr state \<Rightarrow> year_loop now existing data_type (now_year now) years state))"
  by (simp only: year_loop.simps(2) Let_def year_path_of_def)

lemma year_loop_result:
  "year_loop now existing data_type (now_year now) years (fs, tasks) = Inr (fs', tasks') \<Longrightarrow>
   tasks' = tasks @ map (\<lambda>(year, month). download_task data_type year month)
                      (wanted now existing data_type years)
   \<and> made_dirs fs (planned_dirs now existing data_type years) fs'
   \<and> (\<forall>year \<in> set years. lookup fs' (year_parts year) \<noteq> None)
   \<and> (\<forall>(year, month) \<in> set (wanted now existing data_type years).
         lookup fs' (month_parts year month) \<noteq> None)"
proof (induction years arbitrary: fs tasks)
  case Nil
  then show ?case by (simp add: wanted_def planned_dirs_def made_dirs_refl)
next
  case (Cons year years)
  obtain fs1 fs2 tasks2 where
    c: "create_directory_structure fs (year_path_of year) = Inr fs1"
    and m: "month_loop now existing data_type (year_path_of year) year (now_year now) [1..12]
        (fs1, tasks) = Inr (fs2, tasks2)"
    and r: "year_loop now existing data_type (now_year now) years (fs2, tasks2) = Inr (fs', tasks')"
    using Cons.prems unfolding year_loop_step by (auto split: sum.splits)
  let ?wm = "wanted_months now existing data_type year [1..12]"
  have c': "made_dirs fs {year_parts year} fs1" "lookup fs1 (year_parts year) \<noteq> None"
    using create_directory_structure_made [OF c resolve_year_path] by auto
  have m': "tasks2 = tasks @ map (download_task data_type year) ?wm"
    "made_dirs fs1 (month_parts year ` set ?wm) fs2"
    "\<forall>month \<in> set ?wm. lookup fs2 (month_parts year month) \<noteq> None"
    using month_loop_result [OF m] by auto
  have ih: "tasks' = tasks2 @ map (\<lambda>(year, month). download_task data_type year month)
                      (wanted now existing data_type years)"
    "made_dirs fs2 (planned_dirs now existing data_type years) fs'"
    "\<forall>year \<in> set years. lookup fs' (year_parts year) \<noteq> None"
    "\<forall>(year, month) \<in> set (wanted now existing data_type years).
         lookup fs' (month_parts year month) \<noteq> None"
    using Cons.IH [OF r] by auto
  have w: "wanted now existing data_type (year # years)
      = map (Pair year) ?wm @ wanted now existing data_type years"
    by (simp add: wanted_def)
  have t: "tasks' = tasks @ map (\<lambda>(year, month). download_task data_type year month)
                      (wanted now existing data_type (year # years))"
    by (simp add: ih(1) m'(1) w comp_def)
  have "made_dirs fs ({year_parts year} \<union> month_parts year ` set ?wm
      \<union> planned_dirs now existing data_type years) fs'"
    using made_dirs_trans [OF made_dirs_trans [OF c'(1) m'(2)] ih(2)] .
  moreover have "{year_parts year} \<union> month_parts year ` set ?wm
      \<union> planned_dirs now existing data_type years
      = planned_dirs now existing data_type (year # years)"
    by (auto simp: planned_dirs_def w)
  ultimately have d: "made_dirs fs (planned_dirs now existing data_type (year # years)) fs'"
    by simp
  have y: "lookup fs' (year_parts year) \<noteq> None"
    using made_dirs_keeps [OF ih(2) made_dirs_keeps [OF m'(2) c'(2)]] .
  have mm: "\<forall>month \<in> set ?wm. lookup fs' (month_parts year month) \<noteq> None"
    using made_dirs_keeps [OF ih(2)] m'(3) by blast
  show ?case using t d y mm ih(3) ih(4) by (auto simp: w)
qed

lemma year_loop_nothing:
  "(\<And>year. year \<in> set years \<Longrightarrow> os_path_exists fs (year_path_of year)) \<Longrightarrow>
   (\<And>year month. year \<in> set years \<Longrightarrow> month \<in> set [1..12]
      \<Longrightarrow> skipped now existing data_type year month) \<Longrightarrow>
   year_loop now existing data_type (now_year now) years (fs, tasks) = Inr (fs, tasks)"
proof (induction years)
  case Nil
  show ?case by simp
next
  case (Cons year years)
  have "create_directory_structure fs (year_path_of year) = Inr fs"
    using Cons.prems(1) by (simp add: create_directory_structure_present)
  moreover have "month_loop now existing data_type (year_path_of year) year (now_year now)
      [1..12] (fs, tasks) = Inr (fs, tasks)"
    using Cons.prems(2) by (intro month_loop_all_skipped) simp
  moreover have "year_loop now existing data_type (now_year now) years (fs, tasks) = Inr (fs, tasks)"
    using Cons.prems by (intro Cons.IH) simp_all
  ultimately show ?case unfolding year_loop_step by simp
qed

subsection \<open>Tasks determine their year and month\<close>

lemma file_name_inj:
  assumes "data_type @ ''_tripdata_'' @ py_str y @ ''-'' @ zfill 2 (py_str m) @ ''.parquet''
         = data_type @ ''_tripdata_'' @ py_str y' @ ''-'' @ zfill 2 (py_str m') @ ''.parquet''"
  shows "y = y' \<and> m = m'"
proof -
  have "py_str y @ CHR ''-'' # (zfill 2 (py_str m) @ ''.parquet'')
      = py_str y' @ CHR ''-'' # (zfill 2 (py_str m') @ ''.parquet'')"
    using assms by simp
  then have "y = y'" and "zfill 2 (py_str m) @ ''.parquet'' = zfill 2 (py_str m') @ ''.parquet''"
    using py_str_dash_split by blast+
  then show ?thesis using month_str_inj by simp
qed

lemma download_task_url:
  "fst (download_task data_type year month) =
     base_url @ ''/'' @ data_type @ ''_tripdata_'' @ py_str year @ ''-''
       @ zfill 2 (py_str month) @ ''.parquet''"
  by (simp add: download_task_def Let_def)

lemma download_task_inj:
  assumes "download_task data_type y m = download_task data_type y' m'"
  shows "y = y' \<and> m = m'"
proof -
  have "fst (download_task data_type y m) = fst (download_task data_type y' m')"
    using assms by simp
  then have "data_type @ ''_tripdata_'' @ py_str y @ ''-'' @ zfill 2 (py_str m) @ ''.parquet''
         = data_type @ ''_tripdata_'' @ py_str y' @ ''-'' @ zfill 2 (py_str m') @ ''.parquet''"
    unfolding download_task_url by simp
  then show ?thesis by (rule file_name_inj)
qed

lemma download_task_output_path:
  "snd (download_task data_type year month) =
     (if startswith data_type ''/''
      then data_type @ ''_tripdata_'' @ py_str year @ ''-'' @ zfill 2 (py_str month) @ ''.parquet''
      else ''data/taxi_data/'' @ py_str year @ ''/'' @ zfill 2 (py_str month) @ ''/''
             @ data_type @ ''_tripdata_'' @ py_str year @ ''-'' @ zfill 2 (py_str month)
             @ ''.parquet'')"
proof -
  let ?file = "data_type @ ''_tripdata_'' @ py_str year @ ''-'' @ zfill 2 (py_str month) @ ''.parquet''"
  have s: "startswith ?file ''/'' = startswith data_type ''/''"
    by (cases data_type) (auto simp: startswith_def)
  have e: "\<not> endswith (month_path_of year month) ''/''" "month_path_of year month \<noteq> []"
    using month_str_plain(4) [of month] month_str_nonempty [of month]
    by (auto simp: endswith_slash month_path_eq)
  have "os_path_join (month_path_of year month) ?file
      = (if startswith data_type ''/'' then ?file else month_path_of year month @ ''/'' @ ?file)"
    using e s unfolding os_path_join_def by simp
  then have "snd (download_task data_type year month)
      = (if startswith data_type ''/'' then ?file else month_path_of year month @ ''/'' @ ?file)"
    by (simp add: download_task_def Let_def)
  then show ?thesis by (simp add: month_path_eq)
qed

lemma output_path_inj:
  assumes "snd (download_task data_type y m) = snd (download_task data_type y' m')"
  shows "y = y' \<and> m = m'"
proof (cases "startswith data_type ''/''")
  case True
  then show ?thesis using assms file_name_inj [of data_type y m y' m']
    by (simp add: download_task_output_path)
next
  case False
  let ?rest = "\<lambda>y m. data_type @ ''_tripdata_'' @ py_str y @ ''-'' @ zfill 2 (py_str m) @ ''.parquet''"
  have "py_str y @ CHR ''/'' # (zfill 2 (py_str m) @ CHR ''/'' # ?rest y m)
      = py_str y' @ CHR ''/'' # (zfill 2 (py_str m') @ CHR ''/'' # ?rest y' m')"
    using assms False by (simp add: download_task_output_path)
  then have 1: "py_str y = py_str y'"
    and 2: "zfill 2 (py_str m) @ CHR ''/'' # ?rest y m = zfill 2 (py_str m') @ CHR ''/'' # ?rest y' m'"
    using append_sep_eq [OF py_str_plain(1) py_str_plain(1)] by blast+
  have "zfill 2 (py_str m) = zfill 2 (py_str m')"
    using append_sep_eq [OF month_str_plain(1) month_str_plain(1) 2] by simp
  then show ?thesis using 1 py_str_inj month_str_inj by blast
qed

subsection \<open>The tasks of a plan\<close>

lemma wanted_iff:
  "(year, month) \<in> set (wanted now existing data_type years) \<longleftrightarrow>
     year \<in> set years \<and> 1 \<le> month \<and> month \<le> 12 \<and> \<not> skipped now existing data_type year month"
  by (auto simp: wanted_def wanted_months_def)

lemma distinct_wanted: "distinct years \<Longrightarrow> distinct (wanted now existing data_type years)"
proof (induction years)
  case Nil
  show ?case by (simp add: wanted_def)
next
  case (Cons year years)
  have w: "wanted now existing data_type (year # years)
      = map (Pair year) (wanted_months now existing data_type year [1..12])
        @ wanted now existing data_type years"
    by (simp add: wanted_def)
  have "distinct (map (Pair year) (wanted_months now existing data_type year [1..12]))"
    by (simp add: distinct_map wanted_months_def inj_on_def)
  moreover have "distinct (wanted now existing data_type years)" using Cons by simp
  moreover have "set (map (Pair year) (wanted_months now existing data_type year [1..12]))
      \<inter> set (wanted now existing data_type years) = {}"
    using Cons.prems by (auto simp: wanted_iff)
  ultimately show ?case unfolding w by simp
qed

lemma plan_downloads_result:
  assumes "plan_downloads now existing fs start_year end_year data_type = Inr (fs', tasks)"
  shows "tasks = map (\<lambda>(year, month). download_task data_type year month)
                   (wanted now existing data_type [start_year..min end_year (now_year now)])"
    and "made_dirs fs (planned_dirs now existing data_type [start_year..min end_year (now_year now)]) fs'"
    and "\<forall>year \<in> set [start_year..min end_year (now_year now)]. lookup fs' (year_parts year) \<noteq> None"
    and "\<forall>(year, month) \<in> set (wanted now existing data_type [start_year..min end_year (now_year now)]).
           lookup fs' (month_parts year month) \<noteq> None"
  using year_loop_result [of now existing data_type "[start_year..min end_year (now_year now)]" fs "[]" fs' tasks]
    assms
  by (simp_all add: plan_downloads_def Let_def)

lemma task_planned_iff:
  assumes "plan_downloads now existing fs start_year end_year data_type = Inr (fs', tasks)"
  shows "download_task data_type year month \<in> set tasks \<longleftrightarrow>
     start_year \<le> year \<and> year \<le> min end_year (now_year now) \<and> 1 \<le> month \<and> month \<le> 12
       \<and> \<not> skipped now existing data_type year month"
proof -
  let ?w = "wanted now existing data_type [start_year..min end_year (now_year now)]"
  have t: "tasks = map (\<lambda>(year, month). download_task data_type year month) ?w"
    using plan_downloads_result(1) [OF assms] .
  have "download_task data_type year month \<in> set tasks \<longleftrightarrow> (year, month) \<in> set ?w"
  proof
    assume "download_task data_type year month \<in> set tasks"
    then obtain y m where "(y, m) \<in> set ?w"
      and "download_task data_type year month = download_task data_type y m"
      unfolding t by auto
    then show "(year, month) \<in> set ?w" using download_task_inj by blast
  next
    assume "(year, month) \<in> set ?w"
    then show "download_task data_type year month \<in> set tasks" unfolding t by force
  qed
  then show ?thesis by (simp add: wanted_iff)
qed

lemma months_1_12: "[1..12] = [1, 2, 3, 4, 5, 6, 7, 8, 9, 10, 11, 12 :: int]"
  by (simp add: upto.simps)

lemmas planner_eval =
  plan_downloads_def Let_def year_loop.simps month_loop.simps
  create_directory_structure_def os_path_exists_def os_path_isdir_def os_makedirs_def resolve_def
  components_def os_path_join_def startswith_def endswith_def base_path_def base_url_def
  py_str_def digits.simps digit_char_def zfill_def months_1_12 download_task_def
  year_path_of_def month_path_of_def

lemma year_parts_not_prefix:
  assumes "p \<in> planned_dirs now existing data_type years" and "year \<notin> set years"
  shows "\<not> prefix (year_parts year) p"
proof
  assume pre: "prefix (year_parts year) p"
  from assms(1) consider y where "y \<in> set years" "p = year_parts y"
    | y m where "(y, m) \<in> set (wanted now existing data_type years)" "p = month_parts y m"
    by (auto simp: planned_dirs_def)
  then show False
  proof cases
    case 1
    then have "py_str year = py_str y" using pre by (simp add: year_parts_def)
    then show False using py_str_inj 1(1) assms(2) by blast
  next
    case 2
    then have "py_str year = py_str y" using pre by (simp add: year_parts_def month_parts_def)
    moreover have "y \<in> set years" using 2(1) by (simp add: wanted_iff)
    ultimately show False using py_str_inj assms(2) by blast
  qed
qed

subsection \<open>Claims about the planner\<close>

text \<open>
  Claim C2. For every start year, end year (in particular with the start year not after
  the end year), category and set of existing records: every task the planner emits is
  the task of a year and a month, and a month whose task is emitted is not in the set of
  existing records, is not after the current month of the current year, lies in a year
  that is not after the current year (the end year is clamped to it) and within the
  requested years, and is a month from 1 to 12. No year after the current year is
  visited: the directory of such a year is as it was before.
\<close>

theorem planner_skips_existing_and_future:
  assumes "plan_downloads now existing fs start_year end_year data_type = Inr (fs', tasks)"
  shows "(\<forall>task \<in> set tasks. \<exists>year month. task = download_task data_type year month)
    \<and> (\<forall>year month. download_task data_type year month \<in> set tasks \<longrightarrow>
          (data_type, year, month) \<notin> existing
          \<and> \<not> (year = now_year now \<and> month > now_month now)
          \<and> year \<le> now_year now \<and> start_year \<le> year \<and> year \<le> end_year
          \<and> 1 \<le> month \<and> month \<le> 12)
    \<and> (\<forall>year. now_year now < year \<longrightarrow>
          os_path_exists fs' (year_path_of year) = os_path_exists fs (year_path_of year))"
proof (intro conjI ballI allI impI)
  fix task
  assume "task \<in> set tasks"
  then show "\<exists>year month. task = download_task data_type year month"
    unfolding plan_downloads_result(1) [OF assms] by auto
next
  fix year month
  assume "download_task data_type year month \<in> set tasks"
  then have *: "start_year \<le> year \<and> year \<le> min end_year (now_year now) \<and> 1 \<le> month
      \<and> month \<le> 12 \<and> \<not> skipped now existing data_type year month"
    using task_planned_iff [OF assms] by simp
  show "(data_type, year, month) \<notin> existing" using * by (simp add: skipped_def)
  show "\<not> (year = now_year now \<and> month > now_month now)" using * by (simp add: skipped_def)
  show "year \<le> now_year now" "start_year \<le> year" "year \<le> end_year" "1 \<le> month" "month \<le> 12"
    using * by simp_all
next
  fix year
  assume "now_year now < year"
  then have "year \<notin> set [start_year..min end_year (now_year now)]" by simp
  then have "lookup fs' (year_parts year) = lookup fs (year_parts year)"
    using made_dirs_frame [OF plan_downloads_result(2) [OF assms]] year_parts_not_prefix by blast
  then show "os_path_exists fs' (year_path_of year) = os_path_exists fs (year_path_of year)"
    by (simp add: os_path_exists_def resolve_year_path)
qed

theorem planner_skips_existing_and_future_witness:
  "plan_downloads \<lparr>now_year = 2023, now_month = 3\<rparr> {(''yellow'', 2023, 2)} (Dir []) 2023 2025 ''yellow''
     = Inr (Dir [(''data'', Dir [(''taxi_data'', Dir [(''2023'', Dir [(''01'', Dir []), (''03'', Dir [])])])])],
        [download_task ''yellow'' 2023 1, download_task ''yellow'' 2023 3])
   \<and> (2023 :: int) \<le> 2025
   \<and> (''yellow'', 2023, 3) \<notin> {(''yellow'', 2023 :: int, 2 :: int)}
   \<and> download_task ''yellow'' 2023 2 \<notin> set [download_task ''yellow'' 2023 1, download_task ''yellow'' 2023 3]
   \<and> download_task ''yellow'' 2023 4 \<notin> set [download_task ''yellow'' 2023 1, download_task ''yellow'' 2023 3]
   \<and> download_task ''yellow'' 2024 1 \<notin> set [download_task ''yellow'' 2023 1, download_task ''yellow'' 2023 3]
   \<and> \<not> os_path_exists
         (Dir [(''data'', Dir [(''taxi_data'', Dir [(''2023'', Dir [(''01'', Dir []), (''03'', Dir [])])])])])
         (year_path_of 2024)"
proof -
  let ?now = "\<lparr>now_year = 2023, now_month = 3\<rparr>"
  let ?tasks = "[download_task ''yellow'' 2023 1, download_task ''yellow'' 2023 3]"
  let ?fs' = "Dir [(''data'', Dir [(''taxi_data'', Dir [(''2023'', Dir [(''01'', Dir []), (''03'', Dir [])])])])]"
  have run: "plan_downloads ?now {(''yellow'', 2023, 2)} (Dir []) 2023 2025 ''yellow'' = Inr (?fs', ?tasks)"
    by (simp add: planner_eval)
  note facts = planner_skips_existing_and_future [OF run]
  have "\<forall>year month. download_task ''yellow'' year month \<in> set ?tasks \<longrightarrow>
          (''yellow'', year, month) \<notin> {(''yellow'', 2023, 2)}
          \<and> \<not> (year = now_year ?now \<and> month > now_month ?now)
          \<and> year \<le> now_year ?now \<and> 2023 \<le> year \<and> year \<le> 2025 \<and> 1 \<le> month \<and> month \<le> 12"
    using facts by blast
  then have a: "download_task ''yellow'' 2023 2 \<notin> set ?tasks"
    "download_task ''yellow'' 2023 4 \<notin> set ?tasks"
    "download_task ''yellow'' 2024 1 \<notin> set ?tasks"
    by fastforce+
  have "os_path_exists ?fs' (year_path_of 2024) = os_path_exists (Dir []) (year_path_of 2024)"
    using facts by simp
  moreover have "\<not> os_path_exists (Dir []) (year_path_of 2024)"
    by (simp add: planner_eval)
  ultimately have b: "\<not> os_path_exists ?fs' (year_path_of 2024)" by simp
  show ?thesis using run a b by simp
qed

text \<open>
  Claim C4. When the planner has run, a second run at the same date, with the set of
  existing records enlarged by the records of all tasks the first run emitted, emits no
  task: on the file system the first run left it returns the empty list and changes
  nothing, and on any other file system the list it returns, if it returns, is empty.
\<close>

theorem planner_idempotent:
  assumes "plan_downloads now existing fs start_year end_year data_type = Inr (fs', tasks)"
  shows "plan_downloads now (existing \<union> task_records data_type tasks) fs' start_year end_year data_type
           = Inr (fs', [])
    \<and> (\<forall>other fs'' tasks'.
          plan_downloads now (existing \<union> task_records data_type tasks) other start_year end_year
            data_type = Inr (fs'', tasks') \<longrightarrow> tasks' = [])"
proof (intro conjI allI impI)
  let ?years = "[start_year..min end_year (now_year now)]"
  let ?existing' = "existing \<union> task_records data_type tasks"
  have sk: "skipped now ?existing' data_type year month"
    if y: "year \<in> set ?years" and m: "month \<in> set [1..12]" for year month
  proof (cases "skipped now existing data_type year month")
    case True
    then show ?thesis by (auto simp: skipped_def)
  next
    case False
    then have "download_task data_type year month \<in> set tasks"
      using y m task_planned_iff [OF assms, of year month] by simp
    then have "(data_type, year, month) \<in> task_records data_type tasks"
      by (auto simp: task_records_def)
    then show ?thesis by (simp add: skipped_def)
  qed
  have "year_loop now ?existing' data_type (now_year now) ?years (fs', []) = Inr (fs', [])"
  proof (rule year_loop_nothing)
    fix year
    assume "year \<in> set ?years"
    then have "lookup fs' (year_parts year) \<noteq> None"
      using plan_downloads_result(3) [OF assms] by blast
    then show "os_path_exists fs' (year_path_of year)"
      by (simp add: os_path_exists_def resolve_year_path)
  next
    fix year month
    assume "year \<in> set ?years" and "month \<in> set [1..12]"
    then show "skipped now ?existing' data_type year month" by (rule sk)
  qed
  then show "plan_downloads now ?existing' fs' start_year end_year data_type = Inr (fs', [])"
    by (simp add: plan_downloads_def Let_def)
  fix other fs'' tasks'
  assume again: "plan_downloads now ?existing' other start_year end_year data_type = Inr (fs'', tasks')"
  have "wanted now ?existing' data_type ?years = []"
  proof (cases "wanted now ?existing' data_type ?years")
    case Nil
    then show ?thesis .
  next
    case (Cons pair pairs)
    obtain y m where "pair = (y, m)" by (cases pair)
    then have "(y, m) \<in> set (wanted now ?existing' data_type ?years)" using Cons by simp
    then have "y \<in> set ?years" "m \<in> set [1..12]" "\<not> skipped now ?existing' data_type y m"
      by (simp_all add: wanted_iff)
    then show ?thesis using sk by blast
  qed
  then show "tasks' = []"
    unfolding plan_downloads_result(1) [OF again] by simp
qed

theorem planner_idempotent_witness:
  "plan_downloads \<lparr>now_year = 2023, now_month = 3\<rparr> {(''yellow'', 2023, 2)} (Dir []) 2023 2025 ''yellow''
     = Inr (Dir [(''data'', Dir [(''taxi_data'', Dir [(''2023'', Dir [(''01'', Dir []), (''03'', Dir [])])])])],
        [download_task ''yellow'' 2023 1, download_task ''yellow'' 2023 3])
   \<and> plan_downloads \<lparr>now_year = 2023, now_month = 3\<rparr>
        ({(''yellow'', 2023, 2)}
           \<union> task_records ''yellow'' [download_task ''yellow'' 2023 1, download_task ''yellow'' 2023 3])
        (Dir [(''data'', Dir [(''taxi_data'', Dir [(''2023'', Dir [(''01'', Dir []), (''03'', Dir [])])])])])
        2023 2025 ''yellow''
     = Inr (Dir [(''data'', Dir [(''taxi_data'', Dir [(''2023'', Dir [(''01'', Dir []), (''03'', Dir [])])])])],
        [])"
proof -
  have run: "plan_downloads \<lparr>now_year = 2023, now_month = 3\<rparr> {(''yellow'', 2023, 2)} (Dir []) 2023 2025 ''yellow''
     = Inr (Dir [(''data'', Dir [(''taxi_data'', Dir [(''2023'', Dir [(''01'', Dir []), (''03'', Dir [])])])])],
        [download_task ''yellow'' 2023 1, download_task ''yellow'' 2023 3])"
    by (simp add: planner_eval)
  show ?thesis using planner_idempotent [OF run] run by simp
qed

text \<open>
  Claim C5. No two tasks of the list the planner produces in one run have the same
  destination path.
\<close>

theorem planner_destinations_distinct:
  assumes "plan_downloads now existing fs start_year end_year data_type = Inr (fs', tasks)"
  shows "distinct (map snd tasks)"
proof -
  let ?w = "wanted now existing data_type [start_year..min end_year (now_year now)]"
  have t: "map snd tasks = map (\<lambda>(year, month). snd (download_task data_type year month)) ?w"
    unfolding plan_downloads_result(1) [OF assms] by (simp add: comp_def case_prod_beta)
  have "distinct ?w" by (rule distinct_wanted) simp
  moreover have "inj_on (\<lambda>(year, month). snd (download_task data_type year month)) (set ?w)"
    using output_path_inj by (auto simp: inj_on_def)
  ultimately show ?thesis unfolding t by (simp add: distinct_map)
qed

theorem planner_destinations_distinct_witness:
  "plan_downloads \<lparr>now_year = 2023, now_month = 3\<rparr> {(''yellow'', 2023, 2)} (Dir []) 2023 2025 ''yellow''
     = Inr (Dir [(''data'', Dir [(''taxi_data'', Dir [(''2023'', Dir [(''01'', Dir []), (''03'', Dir [])])])])],
        [download_task ''yellow'' 2023 1, download_task ''yellow'' 2023 3])
   \<and> distinct (map snd [download_task ''yellow'' 2023 1, download_task ''yellow'' 2023 3])"
proof -
  have run: "plan_downloads \<lparr>now_year = 2023, now_month = 3\<rparr> {(''yellow'', 2023, 2)} (Dir []) 2023 2025 ''yellow''
     = Inr (Dir [(''data'', Dir [(''taxi_data'', Dir [(''2023'', Dir [(''01'', Dir []), (''03'', Dir [])])])])],
        [download_task ''yellow'' 2023 1, download_task ''yellow'' 2023 3])"
    by (simp add: planner_eval)
  show ?thesis using planner_destinations_distinct [OF run] run by simp
qed

lemma month_parts_not_prefix:
  assumes "p \<in> planned_dirs now existing data_type years"
    and "(year, month) \<notin> set (wanted now existing data_type years)"
  shows "\<not> prefix (month_parts year month) p"
proof
  assume pre: "prefix (month_parts year month) p"
  from assms(1) consider y where "p = year_parts y"
    | y m where "(y, m) \<in> set (wanted now existing data_type years)" "p = month_parts y m"
    by (auto simp: planned_dirs_def)
  then show False
  proof cases
    case 1
    then show False using pre prefix_length_le [OF pre] by (simp add: year_parts_def month_parts_def)
  next
    case 2
    then have "month_parts year month = month_parts y m"
      using pre by (simp add: month_parts_def)
    then have "year = y" "month = m"
      using py_str_inj month_str_inj by (auto simp: month_parts_def)
    then show False using 2(1) assms(2) by simp
  qed
qed

text \<open>
  Claim C10. After the planner has run, the directory of every year from the start year
  to the clamped end year exists, whether or not a task was emitted for one of its
  months, and is a directory if it was missing before. The directory of a month exists
  if the task of that month was emitted; for a month whose task was not emitted it is as
  it was before the run, so that it is not created.
\<close>

theorem planner_directories:
  assumes "plan_downloads now existing fs start_year end_year data_type = Inr (fs', tasks)"
  shows "(\<forall>year. start_year \<le> year \<and> year \<le> min end_year (now_year now) \<longrightarrow>
            os_path_exists fs' (year_path_of year)
            \<and> (\<not> os_path_exists fs (year_path_of year) \<longrightarrow> os_path_isdir fs' (year_path_of year)))
    \<and> (\<forall>year month. download_task data_type year month \<notin> set tasks \<longrightarrow>
            os_path_exists fs' (month_path_of year month) = os_path_exists fs (month_path_of year month)
            \<and> os_path_isdir fs' (month_path_of year month) = os_path_isdir fs (month_path_of year month))
    \<and> (\<forall>year month. download_task data_type year month \<in> set tasks \<longrightarrow>
            os_path_exists fs' (month_path_of year month))"
proof (intro conjI allI impI)
  let ?years = "[start_year..min end_year (now_year now)]"
  note made = plan_downloads_result(2) [OF assms]
  {
    fix year
    assume y: "start_year \<le> year \<and> year \<le> min end_year (now_year now)"
    then have e: "lookup fs' (year_parts year) \<noteq> None"
      using plan_downloads_result(3) [OF assms] by simp
    then show "os_path_exists fs' (year_path_of year)"
      by (simp add: os_path_exists_def resolve_year_path)
    assume "\<not> os_path_exists fs (year_path_of year)"
    then have "lookup fs (year_parts year) = None"
      by (simp add: os_path_exists_def resolve_year_path)
    then show "os_path_isdir fs' (year_path_of year)"
      using made_dirs_new_is_dir [OF made _ e] by (simp add: os_path_isdir_def resolve_year_path)
  }
  {
    fix year month
    assume "download_task data_type year month \<notin> set tasks"
    then have "(year, month) \<notin> set (wanted now existing data_type ?years)"
      unfolding plan_downloads_result(1) [OF assms] by force
    then have "lookup fs' (month_parts year month) = lookup fs (month_parts year month)"
      using made_dirs_frame [OF made] month_parts_not_prefix by blast
    then show "os_path_exists fs' (month_path_of year month) = os_path_exists fs (month_path_of year month)"
      "os_path_isdir fs' (month_path_of year month) = os_path_isdir fs (month_path_of year month)"
      by (simp_all add: os_path_exists_def os_path_isdir_def resolve_month_path)
  }
  {
    fix year month
    assume "download_task data_type year month \<in> set tasks"
    then have "(year, month) \<in> set (wanted now existing data_type ?years)"
      using task_planned_iff [OF assms, of year month] by (simp add: wanted_iff)
    then have "lookup fs' (month_parts year month) \<noteq> None"
      using plan_downloads_result(4) [OF assms] by blast
    then show "os_path_exists fs' (month_path_of year month)"
      by (simp add: os_path_exists_def resolve_month_path)
  }
qed

theorem planner_directories_witness:
  "plan_downloads \<lparr>now_year = 2023, now_month = 1\<rparr> {(''yellow'', 2023, 1)} (Dir []) 2023 2024 ''yellow''
     = Inr (Dir [(''data'', Dir [(''taxi_data'', Dir [(''2023'', Dir [])])])], [])
   \<and> os_path_exists (Dir [(''data'', Dir [(''taxi_data'', Dir [(''2023'', Dir [])])])]) (year_path_of 2023)
   \<and> os_path_isdir (Dir [(''data'', Dir [(''taxi_data'', Dir [(''2023'', Dir [])])])]) (year_path_of 2023)
   \<and> \<not> os_path_exists (Dir [(''data'', Dir [(''taxi_data'', Dir [(''2023'', Dir [])])])]) (month_path_of 2023 1)"
proof -
  let ?fs' = "Dir [(''data'', Dir [(''taxi_data'', Dir [(''2023'', Dir [])])])]"
  have run: "plan_downloads \<lparr>now_year = 2023, now_month = 1\<rparr> {(''yellow'', 2023, 1)} (Dir []) 2023 2024 ''yellow''
     = Inr (?fs', [])"
    by (simp add: planner_eval)
  have before: "\<not> os_path_exists (Dir []) (year_path_of 2023)"
    "\<not> os_path_exists (Dir []) (month_path_of 2023 1)"
    by (simp_all add: planner_eval)
  have "os_path_exists ?fs' (year_path_of 2023) \<and> os_path_isdir ?fs' (year_path_of 2023)
      \<and> \<not> os_path_exists ?fs' (month_path_of 2023 1)"
    using planner_directories [OF run] before by simp
  then show ?thesis using run by simp
qed

section \<open>The scanner and the planner agree\<close>

text \<open>
  A file that stands where the planner would put the file of a month is found by the
  scanner, under the record of that month. So for a category without underscore and
  without separator the destination of every planned task is absent when planning
  ends.
\<close>

lemma lookup_snoc:
  "lookup fs (p @ [c]) = Some n \<Longrightarrow> \<exists>es. lookup fs p = Some (Dir es) \<and> map_of es c = Some n"
proof (induction p arbitrary: fs)
  case Nil
  then show ?case by (cases fs) (auto split: option.splits)
next
  case (Cons d p)
  then show ?case by (cases fs) (auto split: option.splits)
qed

lemma entries_lookup:
  "resolve path = Some p \<Longrightarrow> lookup fs p = Some (Dir es) \<Longrightarrow> map_of es c = Some n
     \<Longrightarrow> c \<in> entries fs path"
  by (auto simp: entries_def os_listdir_def dest!: map_of_SomeD intro: rev_image_eqI)

lemma resolve_base_path: "resolve base_path = Some [''data'', ''taxi_data'']"
  by (simp add: base_path_def resolve_def components_def)

lemma file_name_plain:
  assumes "CHR ''/'' \<notin> set data_type"
  shows "CHR ''/'' \<notin> set (file_name_of data_type year month)"
    and "file_name_of data_type year month \<noteq> []"
    and "file_name_of data_type year month \<noteq> ''.''"
  using assms py_str_plain(1) [of year] month_str_plain(1) [of month]
  by (auto simp: file_name_of_def)

lemma resolve_output_path:
  assumes "CHR ''/'' \<notin> set data_type"
  shows "resolve (snd (download_task data_type year month))
       = Some (month_parts year month @ [file_name_of data_type year month])"
proof -
  have s: "\<not> startswith data_type ''/''"
    using assms by (cases data_type) (auto simp: startswith_def)
  have "snd (download_task data_type year month)
      = month_path_of year month @ CHR ''/'' # file_name_of data_type year month"
    using s by (simp add: download_task_output_path month_path_eq file_name_of_def)
  moreover have "components (month_path_of year month @ CHR ''/'' # file_name_of data_type year month)
      = components (month_path_of year month) @ components (file_name_of data_type year month)"
    by (rule components_append)
  moreover have "components (month_path_of year month) = month_parts year month"
    using resolve_month_path [of year month] by (simp add: resolve_def split: if_splits)
  moreover have "components (file_name_of data_type year month) = [file_name_of data_type year month]"
    using file_name_plain [OF assms] by (intro components_plain)
  ultimately show ?thesis by (simp add: resolve_def)
qed

lemma present_file_is_scanned:
  assumes "lookup fs (month_parts year month @ [file_name_of data_type year month]) \<noteq> None"
  shows "(split_first data_type, year, month) \<in> records_present fs base_path"
proof -
  let ?file = "file_name_of data_type year month"
  let ?mm = "zfill 2 (py_str month)"
  obtain n where n: "lookup fs (month_parts year month @ [?file]) = Some n"
    using assms by auto
  obtain es3 where m: "lookup fs (month_parts year month) = Some (Dir es3)"
    and f: "map_of es3 ?file = Some n"
    using lookup_snoc [OF n] by blast
  have mp: "month_parts year month = year_parts year @ [?mm]"
    by (simp add: month_parts_def year_parts_def)
  obtain es2 where y: "lookup fs (year_parts year) = Some (Dir es2)"
    and md: "map_of es2 ?mm = Some (Dir es3)"
    using lookup_snoc [of fs "year_parts year" ?mm] m mp by auto
  have yp: "year_parts year = [''data'', ''taxi_data''] @ [py_str year]"
    by (simp add: year_parts_def)
  obtain es1 where b: "lookup fs [''data'', ''taxi_data''] = Some (Dir es1)"
    and yd: "map_of es1 (py_str year) = Some (Dir es2)"
    using lookup_snoc [of fs "[''data'', ''taxi_data'']" "py_str year"] y yp by auto
  have ry: "resolve (os_path_join base_path (py_str year)) = Some (year_parts year)"
    using resolve_year_path [of year] by (simp add: year_path_of_def)
  have rm: "resolve (os_path_join (os_path_join base_path (py_str year)) ?mm)
      = Some (month_parts year month)"
    using resolve_month_path [of year month] by (simp add: month_path_of_def year_path_of_def)
  have 1: "py_str year \<in> entries fs base_path"
    using entries_lookup [OF resolve_base_path b yd] .
  have 2: "os_path_isdir fs (os_path_join base_path (py_str year))"
    by (simp add: os_path_isdir_def ry y)
  have 3: "?mm \<in> entries fs (os_path_join base_path (py_str year))"
    using entries_lookup [OF ry y md] .
  have 4: "os_path_isdir fs (os_path_join (os_path_join base_path (py_str year)) ?mm)"
    by (simp add: os_path_isdir_def rm m)
  have 5: "?file \<in> entries fs (os_path_join (os_path_join base_path (py_str year)) ?mm)"
    using entries_lookup [OF rm m f] .
  have 6: "endswith ?file ''.parquet''"
    using endswith_append [of "data_type @ ''_tripdata_'' @ py_str year @ ''-'' @ ?mm" "''.parquet''"]
    by (simp add: file_name_of_def)
  have "(split_first ?file, year, month) \<in> records_present fs base_path"
    unfolding records_present_def
    using 1 2 3 4 5 6 py_int_py_str [of year] py_int_month_str [of month] by blast
  moreover have "split_first ?file = split_first data_type"
    unfolding file_name_of_def by (rule split_first_file_name)
  ultimately show ?thesis by simp
qed

lemma split_first_plain: "CHR ''_'' \<notin> set s \<Longrightarrow> split_first s = s"
  by (induction s) (auto simp: split_first_def)

lemma planned_destination_absent:
  assumes scan: "get_existing_downloads fs1 base_path = Inr existing"
    and plan: "plan_downloads now existing fs1 start_year end_year data_type = Inr (fs2, tasks)"
    and dt: "CHR ''_'' \<notin> set data_type" "CHR ''/'' \<notin> set data_type"
    and task: "task \<in> set tasks"
  shows "\<not> os_path_exists fs2 (snd task)"
proof
  assume ex: "os_path_exists fs2 (snd task)"
  let ?years = "[start_year..min end_year (now_year now)]"
  obtain year month where w: "(year, month) \<in> set (wanted now existing data_type ?years)"
    and t: "task = download_task data_type year month"
    using task unfolding plan_downloads_result(1) [OF plan] by auto
  let ?q = "month_parts year month @ [file_name_of data_type year month]"
  have q: "lookup fs2 ?q \<noteq> None"
    using ex by (simp add: os_path_exists_def t resolve_output_path [OF dt(2)])
  have "\<not> prefix ?q p" if "p \<in> planned_dirs now existing data_type ?years" for p
  proof
    assume "prefix ?q p"
    then have "length ?q \<le> length p" by (rule prefix_length_le)
    then show False using that by (auto simp: planned_dirs_def year_parts_def month_parts_def)
  qed
  then have "lookup fs2 ?q = lookup fs1 ?q"
    using made_dirs_frame [OF plan_downloads_result(2) [OF plan]] by blast
  then have "(split_first data_type, year, month) \<in> records_present fs1 base_path"
    using q present_file_is_scanned by simp
  moreover have "existing = records_present fs1 base_path"
    using scan by (simp add: get_existing_downloads_eq split: if_splits)
  ultimately have "(data_type, year, month) \<in> existing"
    by (simp add: split_first_plain [OF dt(1)])
  then show False using w by (simp add: wanted_iff skipped_def)
qed

section \<open>Downloads\<close>

lemma same_dirs_isdir: "same_dirs fs fs' \<Longrightarrow> os_path_isdir fs' p = os_path_isdir fs p"
  by (simp add: same_dirs_def os_path_isdir_def split: option.splits)

lemma same_dirs_root:
  "same_dirs fs fs' \<Longrightarrow> is_dir_node (lookup fs []) \<Longrightarrow> is_dir_node (lookup fs' [])"
  unfolding same_dirs_def by blast

lemma file_write_result:
  assumes "file_write fs output_path chunk = Inr fs'" and "resolve output_path = Some q"
  shows "(\<exists>bytes. lookup fs' q = Some (File bytes)) \<and> same_dirs fs fs'"
proof -
  obtain old where "lookup fs q = Some (File old)" and p: "put_file fs q (old @ chunk) = Inr fs'"
    using assms by (auto simp: file_write_def split: option.splits node.splits)
  then show ?thesis using put_file_lookup [OF p] put_file_same_dirs [OF p] by blast
qed

lemma write_chunks_result:
  assumes "resolve output_path = Some q" and "lookup fs q = Some (File bytes)"
    and "write_chunks world fs output_path events written = (fs', outcome)"
  shows "(\<exists>bytes'. lookup fs' q = Some (File bytes')) \<and> same_dirs fs fs'"
  using assms(2,3)
proof (induction events arbitrary: fs bytes written)
  case Nil
  then show ?case by (auto simp: same_dirs_refl)
next
  case (Cons event events)
  show ?case
  proof (cases event)
    case StreamError
    then show ?thesis using Cons.prems by (auto simp: same_dirs_refl)
  next
    case (Chunk chunk)
    show ?thesis
    proof (cases "chunk = []")
      case True
      then show ?thesis using Cons.IH [OF Cons.prems(1)] Cons.prems(2) Chunk by simp
    next
      case False
      show ?thesis
      proof (cases "write_ok world output_path written")
        case no: False
        then show ?thesis using Cons.prems Chunk False by (auto simp: same_dirs_refl)
      next
        case True
        show ?thesis
        proof (cases "file_write fs output_path chunk")
          case (Inl e)
          then show ?thesis using Cons.prems Chunk False True by (auto simp: same_dirs_refl)
        next
          case (Inr fs1)
          obtain b1 where b1: "lookup fs1 q = Some (File b1)" and s1: "same_dirs fs fs1"
            using file_write_result [OF Inr assms(1)] by blast
          have "write_chunks world fs1 output_path events (written + 1) = (fs', outcome)"
            using Cons.prems(2) Chunk False True Inr by simp
          from Cons.IH [OF b1 this] show ?thesis using s1 same_dirs_trans by blast
        qed
      qed
    qed
  qed
qed

lemma fetch_and_write_result:
  assumes "fetch_and_write world fs url output_path = (fs', outcome)"
  shows "same_dirs fs fs'"
proof (cases "requests_get world url")
  case (Inl e)
  then show ?thesis using assms by (simp add: fetch_and_write_def same_dirs_refl)
next
  case (Inr response)
  show ?thesis
  proof (cases "400 \<le> status_code response \<and> status_code response < 600")
    case True
    then show ?thesis using assms Inr by (simp add: fetch_and_write_def same_dirs_refl)
  next
    case False
    show ?thesis
    proof (cases "open_wb world fs output_path")
      case (Inl e)
      then show ?thesis using assms Inr False
        by (simp add: fetch_and_write_def same_dirs_refl)
    next
      case opened: (Inr fs1)
      then obtain q where q: "resolve output_path = Some q" and p: "put_file fs q [] = Inr fs1"
        by (auto simp: open_wb_def split: option.splits sum.splits if_splits)
      have w: "write_chunks world fs1 output_path (iter_content response) 0 = (fs', outcome)"
        using assms Inr False opened by (simp add: fetch_and_write_def)
      show ?thesis
        using write_chunks_result [OF q put_file_lookup [OF p] w] put_file_same_dirs [OF p]
          same_dirs_trans by blast
    qed
  qed
qed

lemma download_file_outcome:
  assumes root: "is_dir_node (lookup fs [])" and nodir: "\<not> os_path_isdir fs output_path"
    and rm: "remove_ok world output_path"
  shows "\<exists>fs' success.
     download_file world fs url output_path = (fs', Inr (output_path, success))
     \<and> same_dirs fs fs'
     \<and> (success \<longleftrightarrow> snd (fetch_and_write world fs url output_path) = Inr ())
     \<and> (\<not> success \<longrightarrow> \<not> os_path_exists fs' output_path)"
proof -
  obtain fs1 outcome where f: "fetch_and_write world fs url output_path = (fs1, outcome)"
    by (cases "fetch_and_write world fs url output_path") auto
  have s1: "same_dirs fs fs1" using fetch_and_write_result [OF f] .
  show ?thesis
  proof (cases outcome)
    case (Inr u)
    then show ?thesis using f s1 by (auto simp: download_file_def)
  next
    case (Inl e)
    show ?thesis
    proof (cases "os_path_exists fs1 output_path")
      case False
      then show ?thesis using f s1 Inl by (auto simp: download_file_def)
    next
      case True
      then obtain q n where q: "resolve output_path = Some q" and n: "lookup fs1 q = Some n"
        by (auto simp: os_path_exists_def split: option.splits)
      have "\<not> is_dir_node (lookup fs1 q)"
        using nodir same_dirs_isdir [OF s1, of output_path] q by (simp add: os_path_isdir_def)
      then obtain bytes where b: "lookup fs1 q = Some (File bytes)"
        using n by (cases n) auto
      have "is_dir_node (lookup fs1 [])" using same_dirs_root [OF s1 root] .
      then have "q \<noteq> []" using b by auto
      then obtain fs2 where u: "unlink fs1 q = Inr fs2" using unlink_file [OF b] by blast
      have "\<not> os_path_exists fs2 output_path"
        using unlink_lookup [OF u] q by (simp add: os_path_exists_def)
      moreover have "same_dirs fs fs2" using s1 unlink_same_dirs [OF u] same_dirs_trans by blast
      moreover have "download_file world fs url output_path = (fs2, Inr (output_path, False))"
        using f Inl True u q rm by (simp add: download_file_def os_remove_def)
      ultimately show ?thesis using f Inl by auto
    qed
  qed
qed

lemma download_file_directory:
  assumes "os_path_isdir fs output_path"
  shows "snd (download_file world fs url output_path)
     = Inl (if remove_ok world output_path then IsADirectoryError else PermissionError)"
proof -
  obtain fs1 outcome where f: "fetch_and_write world fs url output_path = (fs1, outcome)"
    by (cases "fetch_and_write world fs url output_path") auto
  have d1: "os_path_isdir fs1 output_path"
    using assms same_dirs_isdir [OF fetch_and_write_result [OF f]] by simp
  obtain q where q: "resolve output_path = Some q" and dq: "is_dir_node (lookup fs q)"
    using assms by (auto simp: os_path_isdir_def split: option.splits)
  have "put_file fs q [] = Inl IsADirectoryError"
    using dq
  proof (induction q arbitrary: fs)
    case Nil
    then show ?case by (cases fs) auto
  next
    case (Cons c q)
    then show ?case by (cases fs) (auto split: option.splits)
  qed
  then have "\<exists>e. outcome = Inl e"
    using f q by (auto simp: fetch_and_write_def open_wb_def split: sum.splits if_splits)
  then obtain e where e: "outcome = Inl e" by blast
  have there: "lookup fs1 q \<noteq> None"
    using isdir_exists [OF d1] q by (simp add: os_path_exists_def)
  have dq1: "is_dir_node (lookup fs1 q)" using d1 q by (simp add: os_path_isdir_def)
  have "unlink fs1 q = Inl IsADirectoryError"
    using dq1
  proof (induction q arbitrary: fs1)
    case Nil
    then show ?case by simp
  next
    case (Cons c q)
    then show ?case
      by (cases fs1) (auto simp: is_dir_node_iff split: option.splits node.splits)
  qed
  then show ?thesis
    using f e isdir_exists [OF d1] q there by (simp add: download_file_def os_remove_def)
qed

lemma put_file_over_file:
  "lookup t p = Some (File old) \<Longrightarrow> \<exists>t'. put_file t p bytes = Inr t'"
proof (induction p arbitrary: t)
  case Nil
  then show ?case by (cases t) auto
next
  case (Cons c p)
  obtain es where t: "t = Dir es" using Cons.prems by (cases t) auto
  obtain n where n: "map_of es c = Some n" and l: "lookup n p = Some (File old)"
    using Cons.prems t by (auto split: option.splits)
  obtain n' where "put_file n p bytes = Inr n'" using Cons.IH [OF l] by blast
  then show ?case using n by (simp add: t)
qed

lemma put_file_ok_iff:
  "(\<exists>t'. put_file t p bytes = Inr t') \<longleftrightarrow>
     (p = [] \<and> \<not> is_dir_node (Some t))
     \<or> (p \<noteq> [] \<and> is_dir_node (lookup t (butlast p)) \<and> \<not> is_dir_node (lookup t p))"
proof (induction p arbitrary: t)
  case Nil
  show ?case by (cases t) auto
next
  case (Cons c p)
  show ?case
  proof (cases t)
    case (File b)
    then show ?thesis by (cases p) auto
  next
    case (Dir es)
    show ?thesis
    proof (cases "map_of es c")
      case None
      then show ?thesis using Dir by (cases p) auto
    next
      case (Some n)
      show ?thesis
      proof (cases "p = []")
        case True
        then show ?thesis using Dir Some by (cases n) auto
      next
        case False
        then show ?thesis using Dir Some Cons.IH [of n] by (auto split: sum.splits)
      qed
    qed
  qed
qed

lemma same_dirs_can_open: "same_dirs fs fs' \<Longrightarrow> can_open world fs' p = can_open world fs p"
  by (simp add: same_dirs_def can_open_def split: option.splits)

lemma write_chunks_ok:
  assumes "resolve output_path = Some p" and "lookup fs p = Some (File bytes)"
  shows "snd (write_chunks world fs output_path events written) = Inr ()
     \<longleftrightarrow> chunks_ok world output_path events written"
  using assms(2)
proof (induction events arbitrary: fs bytes written)
  case Nil
  show ?case by simp
next
  case (Cons event events)
  show ?case
  proof (cases event)
    case StreamError
    then show ?thesis by simp
  next
    case (Chunk chunk)
    show ?thesis
    proof (cases "chunk = [] \<or> \<not> write_ok world output_path written")
      case True
      then show ?thesis using Chunk Cons.IH [OF Cons.prems] by auto
    next
      case False
      obtain fs1 where p1: "put_file fs p (bytes @ chunk) = Inr fs1"
        using put_file_over_file [OF Cons.prems] by blast
      then have w: "file_write fs output_path chunk = Inr fs1"
        using assms(1) Cons.prems by (simp add: file_write_def)
      have "lookup fs1 p = Some (File (bytes @ chunk))" using put_file_lookup [OF p1] .
      from Cons.IH [OF this] show ?thesis using Chunk False w by simp
    qed
  qed
qed

lemma fetch_and_write_ok:
  assumes "is_dir_node (lookup fs [])"
  shows "snd (fetch_and_write world fs url output_path) = Inr ()
     \<longleftrightarrow> can_open world fs output_path \<and> transfer_ok world url output_path"
proof (cases "requests_get world url")
  case (Inl e)
  then show ?thesis by (simp add: fetch_and_write_def transfer_ok_def)
next
  case (Inr response)
  show ?thesis
  proof (cases "400 \<le> status_code response \<and> status_code response < 600")
    case True
    then show ?thesis using Inr by (simp add: fetch_and_write_def transfer_ok_def)
  next
    case False
    show ?thesis
    proof (cases "open_wb world fs output_path")
      case (Inl e)
      have "\<not> can_open world fs output_path"
      proof (cases "resolve output_path")
        case None
        then show ?thesis by (simp add: can_open_def)
      next
        case (Some p)
        then have "\<not> (\<exists>t'. put_file fs p [] = Inr t') \<or> \<not> open_ok world output_path"
          using Inl by (auto simp: open_wb_def split: sum.splits if_splits)
        then show ?thesis using Some unfolding put_file_ok_iff by (auto simp: can_open_def)
      qed
      then show ?thesis using Inr False Inl by (simp add: fetch_and_write_def)
    next
      case opened: (Inr fs1)
      then obtain p where p: "resolve output_path = Some p" and pf: "put_file fs p [] = Inr fs1"
        and ok: "open_ok world output_path"
        by (auto simp: open_wb_def split: option.splits sum.splits if_splits)
      have "\<exists>t'. put_file fs p [] = Inr t'" using pf by blast
      then have "can_open world fs output_path"
        using p assms ok unfolding put_file_ok_iff by (auto simp: can_open_def)
      moreover have "snd (write_chunks world fs1 output_path (iter_content response) 0) = Inr ()
          \<longleftrightarrow> chunks_ok world output_path (iter_content response) 0"
        using write_chunks_ok [OF p put_file_lookup [OF pf]] .
      ultimately show ?thesis using Inr False opened
        by (auto simp: fetch_and_write_def transfer_ok_def)
    qed
  qed
qed

lemma download_file_alone:
  assumes "is_dir_node (lookup fs [])" and "\<not> os_path_isdir fs output_path"
    and "remove_ok world output_path"
  shows "\<exists>fs'. download_file world fs url output_path
       = (fs', Inr (output_path, can_open world fs output_path \<and> transfer_ok world url output_path))
     \<and> same_dirs fs fs'"
  using download_file_outcome [OF assms, of url] fetch_and_write_ok [OF assms(1), of world url output_path]
  by auto

lemma run_tasks_alone:
  assumes "is_dir_node (lookup fs [])"
    and "\<And>task. task \<in> set tasks \<Longrightarrow> \<not> os_path_isdir fs (snd task)"
    and "\<And>task. task \<in> set tasks \<Longrightarrow> remove_ok world (snd task)"
  shows "snd (run_tasks world fs tasks)
     = map (\<lambda>task. Inr (snd task,
              can_open world fs (snd task) \<and> transfer_ok world (fst task) (snd task))) tasks"
  using assms
proof (induction tasks arbitrary: fs)
  case Nil
  show ?case by simp
next
  case (Cons task tasks)
  obtain url output_path where task: "task = (url, output_path)" by (cases task)
  have "\<not> os_path_isdir fs output_path" using Cons.prems(2) [of task] task by simp
  moreover have "remove_ok world output_path" using Cons.prems(3) [of task] task by simp
  ultimately obtain fs1 where
    d: "download_file world fs url output_path
       = (fs1, Inr (output_path, can_open world fs output_path \<and> transfer_ok world url output_path))"
    and s: "same_dirs fs fs1"
    using download_file_alone [OF Cons.prems(1)] by blast
  have "is_dir_node (lookup fs1 [])" using same_dirs_root [OF s Cons.prems(1)] .
  moreover have "\<And>t. t \<in> set tasks \<Longrightarrow> \<not> os_path_isdir fs1 (snd t)"
    using Cons.prems(2) same_dirs_isdir [OF s] by simp
  moreover have "\<And>t. t \<in> set tasks \<Longrightarrow> remove_ok world (snd t)"
    using Cons.prems(3) by simp
  ultimately have "snd (run_tasks world fs1 tasks)
     = map (\<lambda>task. Inr (snd task,
              can_open world fs1 (snd task) \<and> transfer_ok world (fst task) (snd task))) tasks"
    by (rule Cons.IH)
  then have "snd (run_tasks world fs1 tasks)
     = map (\<lambda>task. Inr (snd task,
              can_open world fs (snd task) \<and> transfer_ok world (fst task) (snd task))) tasks"
    by (simp add: same_dirs_can_open [OF s])
  then show ?case using d
    by (cases "run_tasks world fs1 tasks") (simp add: task download_worker_def)
qed

lemmas download_eval =
  download_file_def fetch_and_write_def open_wb_def file_write_def os_remove_def
  download_worker_def path_eval

text \<open>
  When \<^verbatim>\<open>download_file\<close> returns its pair. The call returns exactly when the body of the
  \<^verbatim>\<open>try\<close> went through, or nothing exists at the destination when the handler looks, or
  the destination is not a directory and the operating system lets the process remove
  it. In every other case \<^verbatim>\<open>os.remove\<close> raises inside the handler and the exception
  leaves \<^verbatim>\<open>download_file\<close>.
\<close>

theorem download_file_returns_iff:
  assumes root: "is_dir_node (lookup fs [])"
  shows "(\<exists>fs' success. download_file world fs url output_path = (fs', Inr (output_path, success)))
     \<longleftrightarrow> snd (fetch_and_write world fs url output_path) = Inr ()
        \<or> \<not> os_path_exists (fst (fetch_and_write world fs url output_path)) output_path
        \<or> (\<not> os_path_isdir fs output_path \<and> remove_ok world output_path)"
proof -
  obtain fs1 outcome where f: "fetch_and_write world fs url output_path = (fs1, outcome)"
    by (cases "fetch_and_write world fs url output_path") auto
  show ?thesis
  proof (cases outcome)
    case (Inr u)
    then show ?thesis using f by (auto simp: download_file_def)
  next
    case failed: (Inl e)
    show ?thesis
    proof (cases "os_path_exists fs1 output_path")
      case False
      then show ?thesis using f failed by (auto simp: download_file_def)
    next
      case True
      show ?thesis
      proof (cases "\<not> os_path_isdir fs output_path \<and> remove_ok world output_path")
        case removable: True
        then show ?thesis using download_file_outcome [OF root, of output_path world url] by auto
      next
        case False
        have "\<exists>e'. snd (download_file world fs url output_path) = Inl e'"
        proof (cases "os_path_isdir fs output_path")
          case True
          then show ?thesis using download_file_directory by blast
        next
          case nodir: False
          then have "\<not> remove_ok world output_path" using False by simp
          then show ?thesis
            using f failed True
            by (auto simp: download_file_def os_remove_def os_path_exists_def split: option.splits)
        qed
        then show ?thesis using f failed True False by auto
      qed
    qed
  qed
qed

theorem download_file_returns_iff_witness:
  "is_dir_node (lookup protected_files [])
   \<and> \<not> (\<exists>fs' success.
         download_file protected_world protected_files
           ''https://d37ci6vzurychx.cloudfront.net/trip-data/yellow_tripdata_2023-01.parquet''
           ''data/taxi_data/2023/01/yellow_tripdata_2023-01.parquet''
         = (fs', Inr (''data/taxi_data/2023/01/yellow_tripdata_2023-01.parquet'', success)))
   \<and> (\<exists>fs' success.
         download_file protected_world protected_files
           ''https://d37ci6vzurychx.cloudfront.net/trip-data/yellow_tripdata_2023-02.parquet''
           ''data/taxi_data/2023/02/yellow_tripdata_2023-02.parquet''
         = (fs', Inr (''data/taxi_data/2023/02/yellow_tripdata_2023-02.parquet'', success)))"
proof -
  have root: "is_dir_node (lookup protected_files [])" by (simp add: protected_files_def)
  have a: "snd (fetch_and_write protected_world protected_files
        ''https://d37ci6vzurychx.cloudfront.net/trip-data/yellow_tripdata_2023-01.parquet''
        ''data/taxi_data/2023/01/yellow_tripdata_2023-01.parquet'') \<noteq> Inr ()"
    by (simp add: download_eval protected_world_def protected_files_def)
  have b: "os_path_exists (fst (fetch_and_write protected_world protected_files
        ''https://d37ci6vzurychx.cloudfront.net/trip-data/yellow_tripdata_2023-01.parquet''
        ''data/taxi_data/2023/01/yellow_tripdata_2023-01.parquet''))
      ''data/taxi_data/2023/01/yellow_tripdata_2023-01.parquet''"
    by (simp add: download_eval protected_world_def protected_files_def)
  have c: "\<not> remove_ok protected_world ''data/taxi_data/2023/01/yellow_tripdata_2023-01.parquet''"
    by (simp add: protected_world_def)
  have d: "snd (fetch_and_write protected_world protected_files
        ''https://d37ci6vzurychx.cloudfront.net/trip-data/yellow_tripdata_2023-02.parquet''
        ''data/taxi_data/2023/02/yellow_tripdata_2023-02.parquet'') = Inr ()"
    by (simp add: download_eval protected_world_def protected_files_def)
  show ?thesis
    using download_file_returns_iff [OF root, of protected_world
        "''https://d37ci6vzurychx.cloudfront.net/trip-data/yellow_tripdata_2023-01.parquet''"
        "''data/taxi_data/2023/01/yellow_tripdata_2023-01.parquet''"]
      download_file_returns_iff [OF root, of protected_world
        "''https://d37ci6vzurychx.cloudfront.net/trip-data/yellow_tripdata_2023-02.parquet''"
        "''data/taxi_data/2023/02/yellow_tripdata_2023-02.parquet''"]
      root a b c d by blast
qed

text \<open>
  Claim C6 says that whatever fails during the request or the writing of a task is caught
  inside the task: the task returns the pair of its destination path and false, no file
  is left at the destination, and no other task is affected. The handler of
  \<^verbatim>\<open>download_file\<close> does not achieve this when \<^verbatim>\<open>os.remove\<close> raises in it. Here the file of
  January 2023 is there and the process has no right to write to it or to its directory:
  opening it raises \<^verbatim>\<open>PermissionError\<close>, the handler finds that the path exists and calls
  \<^verbatim>\<open>os.remove\<close>, and that call raises \<^verbatim>\<open>PermissionError\<close> out of \<^verbatim>\<open>download_file\<close>. The task
  returns no pair and the file stays where it was. In a pool with a second task, whose
  download goes through, the future of the first holds the exception, and the counting
  loop raises it again and is left before anything is reported.
\<close>

theorem download_file_raises_from_handler:
  "os_path_exists protected_files ''data/taxi_data/2023/01/yellow_tripdata_2023-01.parquet''
   \<and> \<not> os_path_isdir protected_files ''data/taxi_data/2023/01/yellow_tripdata_2023-01.parquet''
   \<and> download_file protected_world protected_files
        ''https://d37ci6vzurychx.cloudfront.net/trip-data/yellow_tripdata_2023-01.parquet''
        ''data/taxi_data/2023/01/yellow_tripdata_2023-01.parquet''
      = (protected_files, Inl PermissionError)
   \<and> snd (run_tasks protected_world protected_files
        [download_task ''yellow'' 2023 1, download_task ''yellow'' 2023 2])
      = [Inl PermissionError,
         Inr (''data/taxi_data/2023/02/yellow_tripdata_2023-02.parquet'', True)]
   \<and> aggregate (snd (run_tasks protected_world protected_files
        [download_task ''yellow'' 2023 1, download_task ''yellow'' 2023 2])) (0, 0)
      = Inl PermissionError"
proof -
  have e: "os_path_exists protected_files ''data/taxi_data/2023/01/yellow_tripdata_2023-01.parquet''"
    by (simp add: path_eval protected_files_def)
  have n: "\<not> os_path_isdir protected_files ''data/taxi_data/2023/01/yellow_tripdata_2023-01.parquet''"
    by (simp add: path_eval protected_files_def)
  have d: "download_file protected_world protected_files
        ''https://d37ci6vzurychx.cloudfront.net/trip-data/yellow_tripdata_2023-01.parquet''
        ''data/taxi_data/2023/01/yellow_tripdata_2023-01.parquet''
      = (protected_files, Inl PermissionError)"
    by (simp add: download_eval protected_world_def protected_files_def)
  have r: "snd (run_tasks protected_world protected_files
        [download_task ''yellow'' 2023 1, download_task ''yellow'' 2023 2])
      = [Inl PermissionError,
         Inr (''data/taxi_data/2023/02/yellow_tripdata_2023-02.parquet'', True)]"
    by (simp add: planner_eval download_eval protected_world_def protected_files_def)
  have a: "aggregate [Inl PermissionError,
         Inr (''data/taxi_data/2023/02/yellow_tripdata_2023-02.parquet'', True)] (0, 0)
      = Inl PermissionError"
    by simp
  show ?thesis using e n d r a by simp
qed

text \<open>
  The same happens when the destination is a directory: opening it raises, the handler
  finds that the path exists, and \<^verbatim>\<open>os.remove\<close> raises in turn, whatever the rights are.
\<close>

lemma download_to_directory_raises:
  "os_path_isdir
     (Dir [(''data'', Dir [(''taxi_data'', Dir [(''2023'', Dir [(''01'',
        Dir [(''yellow_tripdata_2023-01.parquet'', Dir [])])])])])])
     ''data/taxi_data/2023/01/yellow_tripdata_2023-01.parquet''
   \<and> download_file flaky_world
     (Dir [(''data'', Dir [(''taxi_data'', Dir [(''2023'', Dir [(''01'',
        Dir [(''yellow_tripdata_2023-01.parquet'', Dir [])])])])])])
     ''https://d37ci6vzurychx.cloudfront.net/trip-data/yellow_tripdata_2023-01.parquet''
     ''data/taxi_data/2023/01/yellow_tripdata_2023-01.parquet''
   = (Dir [(''data'', Dir [(''taxi_data'', Dir [(''2023'', Dir [(''01'',
        Dir [(''yellow_tripdata_2023-01.parquet'', Dir [])])])])])],
      Inl IsADirectoryError)"
  by (simp add: download_eval flaky_world_def)

text \<open>
  Where no removal can raise, the handler does contain every failure. For a destination
  that is not a directory and that the operating system lets the process remove:
  whatever fails during the request or the writing, the task returns the pair of its
  destination path and a flag, the flag is true exactly when nothing failed, and after a
  task that returned false nothing exists at its destination path. In a list of such
  tasks the result of every task is the result the task has when it runs alone,
  whichever of the others failed.
\<close>

theorem removable_failure_is_contained:
  assumes "\<not> os_path_isdir (Dir root) output_path" and "remove_ok world output_path"
  shows "(\<exists>fs' success.
            download_file world (Dir root) url output_path = (fs', Inr (output_path, success))
          \<and> (success \<longleftrightarrow> snd (fetch_and_write world (Dir root) url output_path) = Inr ())
          \<and> (\<not> success \<longrightarrow> \<not> os_path_exists fs' output_path))
       \<and> ((\<forall>task \<in> set tasks. \<not> os_path_isdir (Dir root) (snd task) \<and> remove_ok world (snd task)) \<longrightarrow>
            snd (run_tasks world (Dir root) tasks)
              = map (\<lambda>task. snd (download_file world (Dir root) (fst task) (snd task))) tasks
          \<and> (\<forall>future \<in> set (snd (run_tasks world (Dir root) tasks)).
                \<exists>task \<in> set tasks. \<exists>success. future = Inr (snd task, success)))"
proof (intro conjI impI)
  have root: "is_dir_node (lookup (Dir root) [])" by simp
  show "\<exists>fs' success.
            download_file world (Dir root) url output_path = (fs', Inr (output_path, success))
          \<and> (success \<longleftrightarrow> snd (fetch_and_write world (Dir root) url output_path) = Inr ())
          \<and> (\<not> success \<longrightarrow> \<not> os_path_exists fs' output_path)"
    using download_file_outcome [OF root assms, of url] by blast
  assume ok: "\<forall>task \<in> set tasks. \<not> os_path_isdir (Dir root) (snd task) \<and> remove_ok world (snd task)"
  have alone: "snd (download_file world (Dir root) (fst task) (snd task))
      = Inr (snd task, can_open world (Dir root) (snd task) \<and> transfer_ok world (fst task) (snd task))"
    if "task \<in> set tasks" for task
    using download_file_alone [OF root, of "snd task" world "fst task"] ok that by auto
  have run: "snd (run_tasks world (Dir root) tasks)
      = map (\<lambda>task. Inr (snd task,
               can_open world (Dir root) (snd task) \<and> transfer_ok world (fst task) (snd task))) tasks"
    using run_tasks_alone [OF root, of tasks world] ok by blast
  show "snd (run_tasks world (Dir root) tasks)
      = map (\<lambda>task. snd (download_file world (Dir root) (fst task) (snd task))) tasks"
    unfolding run using alone by simp
  show "\<forall>future \<in> set (snd (run_tasks world (Dir root) tasks)).
          \<exists>task \<in> set tasks. \<exists>success. future = Inr (snd task, success)"
    unfolding run by auto
qed

theorem removable_failure_is_contained_witness:
  "\<not> os_path_isdir (Dir [(''out'', Dir [])]) ''out/c.parquet''
   \<and> remove_ok flaky_world ''out/c.parquet''
   \<and> download_file flaky_world (Dir [(''out'', Dir [])])
        ''https://d37ci6vzurychx.cloudfront.net/trip-data/yellow_tripdata_2023-03.parquet''
        ''out/c.parquet''
      = (Dir [(''out'', Dir [])], Inr (''out/c.parquet'', False))
   \<and> \<not> os_path_exists (Dir [(''out'', Dir [])]) ''out/c.parquet''
   \<and> snd (run_tasks flaky_world (Dir [(''out'', Dir [])])
        [(''https://d37ci6vzurychx.cloudfront.net/trip-data/yellow_tripdata_2023-02.parquet'', ''out/b.parquet''),
         (''https://d37ci6vzurychx.cloudfront.net/trip-data/yellow_tripdata_2023-03.parquet'', ''out/c.parquet''),
         (''https://d37ci6vzurychx.cloudfront.net/trip-data/yellow_tripdata_2023-01.parquet'', ''out/a.parquet'')])
      = map (\<lambda>task. snd (download_file flaky_world (Dir [(''out'', Dir [])]) (fst task) (snd task)))
        [(''https://d37ci6vzurychx.cloudfront.net/trip-data/yellow_tripdata_2023-02.parquet'', ''out/b.parquet''),
         (''https://d37ci6vzurychx.cloudfront.net/trip-data/yellow_tripdata_2023-03.parquet'', ''out/c.parquet''),
         (''https://d37ci6vzurychx.cloudfront.net/trip-data/yellow_tripdata_2023-01.parquet'', ''out/a.parquet'')]
   \<and> snd (run_tasks flaky_world (Dir [(''out'', Dir [])])
        [(''https://d37ci6vzurychx.cloudfront.net/trip-data/yellow_tripdata_2023-02.parquet'', ''out/b.parquet''),
         (''https://d37ci6vzurychx.cloudfront.net/trip-data/yellow_tripdata_2023-03.parquet'', ''out/c.parquet''),
         (''https://d37ci6vzurychx.cloudfront.net/trip-data/yellow_tripdata_2023-01.parquet'', ''out/a.parquet'')])
      = [Inr (''out/b.parquet'', False), Inr (''out/c.parquet'', False), Inr (''out/a.parquet'', True)]"
proof -
  let ?fs = "Dir [(''out'', Dir [])]"
  let ?tasks =
    "[(''https://d37ci6vzurychx.cloudfront.net/trip-data/yellow_tripdata_2023-02.parquet'', ''out/b.parquet''),
      (''https://d37ci6vzurychx.cloudfront.net/trip-data/yellow_tripdata_2023-03.parquet'', ''out/c.parquet''),
      (''https://d37ci6vzurychx.cloudfront.net/trip-data/yellow_tripdata_2023-01.parquet'', ''out/a.parquet'')]"
  have n: "\<not> os_path_isdir ?fs ''out/c.parquet''"
    by (simp add: download_eval)
  have k: "remove_ok flaky_world ''out/c.parquet''"
    by (simp add: flaky_world_def)
  have ns: "\<forall>task \<in> set ?tasks. \<not> os_path_isdir ?fs (snd task) \<and> remove_ok flaky_world (snd task)"
    by (simp add: download_eval flaky_world_def)
  have d: "download_file flaky_world ?fs
        ''https://d37ci6vzurychx.cloudfront.net/trip-data/yellow_tripdata_2023-03.parquet''
        ''out/c.parquet''
      = (?fs, Inr (''out/c.parquet'', False))"
    by (simp add: download_eval flaky_world_def)
  have r: "snd (run_tasks flaky_world ?fs ?tasks)
      = [Inr (''out/b.parquet'', False), Inr (''out/c.parquet'', False), Inr (''out/a.parquet'', True)]"
    by (simp add: download_eval flaky_world_def)
  note inst = removable_failure_is_contained [OF n k,
      of "''https://d37ci6vzurychx.cloudfront.net/trip-data/yellow_tripdata_2023-03.parquet''" ?tasks]
  have e: "\<not> os_path_exists ?fs ''out/c.parquet''"
    using inst unfolding d by auto
  have m: "snd (run_tasks flaky_world ?fs ?tasks)
      = map (\<lambda>task. snd (download_file flaky_world ?fs (fst task) (snd task))) ?tasks"
    using inst ns by blast
  show ?thesis using n k d e m r by simp
qed

section \<open>Whole runs\<close>

lemma download_file_path:
  "download_file world fs url output_path = (fs', Inr (p, success)) \<Longrightarrow> p = output_path"
  by (auto simp: download_file_def split: prod.splits sum.splits if_splits)

lemma run_tasks_paths:
  "run_tasks world fs tasks = (fs', futures) \<Longrightarrow>
   list_all2 (\<lambda>task future. \<forall>p success. future = Inr (p, success) \<longrightarrow> p = snd task) tasks futures"
proof (induction tasks arbitrary: fs fs' futures)
  case Nil
  then show ?case by simp
next
  case (Cons task tasks)
  obtain url output_path where task: "task = (url, output_path)" by (cases task)
  obtain fs1 future where d: "download_file world fs url output_path = (fs1, future)"
    by (cases "download_file world fs url output_path")
  obtain fs2 rest where r: "run_tasks world fs1 tasks = (fs2, rest)"
    by (cases "run_tasks world fs1 tasks")
  have f: "futures = future # rest"
    using Cons.prems d r by (simp add: task download_worker_def)
  have "\<forall>p success. future = Inr (p, success) \<longrightarrow> p = snd task"
    using d download_file_path by (auto simp: task)
  then show ?case using Cons.IH [OF r] f by simp
qed

lemma aggregate_all_results:
  "aggregate futures counts = Inr totals \<Longrightarrow> future \<in> set futures
     \<Longrightarrow> \<exists>p success. future = Inr (p, success)"
proof (induction futures counts rule: aggregate.induct)
  case (1 successful failed)
  then show ?case by simp
next
  case (2 e futures successful failed)
  then show ?case by simp
next
  case (3 output_path success futures successful failed)
  then show ?case by (auto split: if_splits)
qed

lemma scrape_phases:
  assumes "scrape_taxi_data world now fs start_year end_year data_type max_workers = Inr r"
  shows "\<exists>fs1 fs2.
      create_directory_structure fs base_path = Inr fs1
    \<and> get_existing_downloads fs1 base_path = Inr (scanned r)
    \<and> plan_downloads now (scanned r) fs1 start_year end_year data_type = Inr (fs2, planned r)
    \<and> (planned r = [] \<and> completed r = [] \<and> printed r = NothingToDownload
        \<or> planned r \<noteq> [] \<and> 0 < max_workers
          \<and> completed r = snd (run_tasks world fs2 (planned r))
          \<and> (\<exists>successful failed.
                aggregate (completed r) (0, 0) = Inr (successful, failed)
              \<and> printed r = DownloadComplete (length (planned r)) successful failed))"
proof -
  obtain fs1 where c: "create_directory_structure fs base_path = Inr fs1"
    using assms by (auto simp: scrape_taxi_data_def split: sum.splits)
  obtain existing where g: "get_existing_downloads fs1 base_path = Inr existing"
    using assms c by (auto simp: scrape_taxi_data_def split: sum.splits)
  obtain fs2 tasks where
    p: "plan_downloads now existing fs1 start_year end_year data_type = Inr (fs2, tasks)"
    using assms c g by (auto simp: scrape_taxi_data_def split: sum.splits)
  show ?thesis
  proof (cases "tasks = []")
    case True
    then have "r = \<lparr>files_after = fs2, scanned = existing, planned = tasks, completed = [],
        printed = NothingToDownload\<rparr>"
      using assms c g p by (simp add: scrape_taxi_data_def)
    then show ?thesis using c g p True by simp
  next
    case False
    then have w: "0 < max_workers"
      using assms c g p by (auto simp: scrape_taxi_data_def split: if_splits)
    obtain fs3 futures where rt: "run_tasks world fs2 tasks = (fs3, futures)"
      by (cases "run_tasks world fs2 tasks")
    obtain successful failed where a: "aggregate futures (0, 0) = Inr (successful, failed)"
      using assms c g p False w rt by (auto simp: scrape_taxi_data_def split: sum.splits)
    have "r = \<lparr>files_after = fs3, scanned = existing, planned = tasks, completed = futures,
        printed = DownloadComplete (length tasks) successful failed\<rparr>"
      using assms c g p False w rt a by (simp add: scrape_taxi_data_def)
    then show ?thesis using c g p False w rt a by simp
  qed
qed

lemma planned_task_has_result:
  assumes "scrape_taxi_data world now fs start_year end_year data_type max_workers = Inr r"
    and "task \<in> set (planned r)"
  shows "\<exists>success. Inr (snd task, success) \<in> set (completed r)"
proof -
  obtain fs2 where ne: "planned r \<noteq> []"
    and c: "completed r = snd (run_tasks world fs2 (planned r))"
    and a: "\<exists>successful failed. aggregate (completed r) (0, 0) = Inr (successful, failed)"
    using scrape_phases [OF assms(1)] assms(2) by auto
  obtain fs3 where rt: "run_tasks world fs2 (planned r) = (fs3, completed r)"
    using c by (cases "run_tasks world fs2 (planned r)") auto
  have l: "list_all2 (\<lambda>task future. \<forall>p success. future = Inr (p, success) \<longrightarrow> p = snd task)
      (planned r) (completed r)"
    using run_tasks_paths [OF rt] .
  obtain i where i: "i < length (planned r)" "planned r ! i = task"
    using assms(2) by (auto simp: in_set_conv_nth)
  have len: "length (completed r) = length (planned r)"
    using l by (simp add: list_all2_lengthD)
  have m: "completed r ! i \<in> set (completed r)" using i(1) len by simp
  then obtain p success where ps: "completed r ! i = Inr (p, success)"
    using a aggregate_all_results by blast
  have "p = snd task" using list_all2_nthD [OF l i(1)] i(2) ps by simp
  then show ?thesis using m ps by auto
qed

lemma sample_run_eval:
  "scrape_taxi_data flaky_world \<lparr>now_year = 2023, now_month = 3\<rparr> sample_files 2023 2023 ''yellow'' 4
     = Inr sample_run"
  by (simp add: scrape_taxi_data_def scanner_eval planner_eval download_eval flaky_world_def
      sample_files_def sample_run_def)

lemma all_success_run_eval:
  "scrape_taxi_data reliable_world \<lparr>now_year = 2023, now_month = 3\<rparr> (Dir []) 2023 2023 ''yellow'' 4
     = Inr all_success_run"
  by (simp add: scrape_taxi_data_def scanner_eval planner_eval download_eval reliable_world_def
      all_success_run_def)

text \<open>
  Claim C1, as amended. For every run that completes, the records of the set of existing
  downloads that lie in the requested grid without its future months, together with the
  records of all tasks of the run, those that downloaded and those that failed, are
  exactly the requested grid (start year to end year, months 1 to 12, of the requested
  category) without the months that lie in the future at the date of the run.
\<close>

theorem run_covers_requested_grid:
  assumes "scrape_taxi_data world now fs start_year end_year data_type max_workers = Inr r"
  shows "(scanned r \<inter> requested_grid now start_year end_year data_type)
           \<union> finished_records data_type True r \<union> finished_records data_type False r
         = requested_grid now start_year end_year data_type"
proof -
  obtain fs1 fs2 where
    p: "plan_downloads now (scanned r) fs1 start_year end_year data_type = Inr (fs2, planned r)"
    using scrape_phases [OF assms] by blast
  have planned: "download_task data_type year month \<in> set (planned r) \<longleftrightarrow>
      (data_type, year, month) \<in> requested_grid now start_year end_year data_type
      \<and> (data_type, year, month) \<notin> scanned r" for year month
    unfolding task_planned_iff [OF p]
    by (auto simp: requested_grid_def in_future_def skipped_def)
  show ?thesis
  proof (intro equalityI subsetI)
    fix x
    assume "x \<in> (scanned r \<inter> requested_grid now start_year end_year data_type)
           \<union> finished_records data_type True r \<union> finished_records data_type False r"
    then show "x \<in> requested_grid now start_year end_year data_type"
      using planned by (auto simp: finished_records_def)
  next
    fix x
    assume x: "x \<in> requested_grid now start_year end_year data_type"
    then obtain year month where xe: "x = (data_type, year, month)"
      by (auto simp: requested_grid_def)
    show "x \<in> (scanned r \<inter> requested_grid now start_year end_year data_type)
           \<union> finished_records data_type True r \<union> finished_records data_type False r"
    proof (cases "x \<in> scanned r")
      case True
      then show ?thesis using x by simp
    next
      case False
      then have t: "download_task data_type year month \<in> set (planned r)"
        using planned x xe by simp
      then obtain success where
        "Inr (snd (download_task data_type year month), success) \<in> set (completed r)"
        using planned_task_has_result [OF assms] by blast
      then have "x \<in> finished_records data_type success r"
        using t by (auto simp: finished_records_def xe)
      then show ?thesis by (cases success) simp_all
    qed
  qed
qed

theorem run_covers_requested_grid_witness:
  "scrape_taxi_data flaky_world \<lparr>now_year = 2023, now_month = 3\<rparr> sample_files 2023 2023 ''yellow'' 4
     = Inr sample_run
   \<and> (scanned sample_run \<inter> requested_grid \<lparr>now_year = 2023, now_month = 3\<rparr> 2023 2023 ''yellow'')
        \<union> finished_records ''yellow'' True sample_run \<union> finished_records ''yellow'' False sample_run
      = requested_grid \<lparr>now_year = 2023, now_month = 3\<rparr> 2023 2023 ''yellow''"
  using run_covers_requested_grid [OF sample_run_eval] sample_run_eval by simp

text \<open>
  With the tasks that downloaded alone, and with all records the scanner found, the
  union is not the grid: the run below leaves out February 2023, whose download failed,
  and holds a record of another category and year.
\<close>

theorem union_with_successes_counterexample:
  "scrape_taxi_data flaky_world \<lparr>now_year = 2023, now_month = 3\<rparr> sample_files 2023 2023 ''yellow'' 4
     = Inr sample_run
   \<and> (''yellow'', 2023, 2) \<in> requested_grid \<lparr>now_year = 2023, now_month = 3\<rparr> 2023 2023 ''yellow''
   \<and> (''yellow'', 2023, 2) \<notin> scanned sample_run \<union> finished_records ''yellow'' True sample_run
   \<and> (''green'', 2022, 5) \<in> scanned sample_run \<union> finished_records ''yellow'' True sample_run
   \<and> (''green'', 2022, 5) \<notin> requested_grid \<lparr>now_year = 2023, now_month = 3\<rparr> 2023 2023 ''yellow''
   \<and> scanned sample_run \<union> finished_records ''yellow'' True sample_run
        \<noteq> requested_grid \<lparr>now_year = 2023, now_month = 3\<rparr> 2023 2023 ''yellow''"
proof -
  have a: "(''yellow'', 2023, 2) \<in> requested_grid \<lparr>now_year = 2023, now_month = 3\<rparr> 2023 2023 ''yellow''"
    by (simp add: requested_grid_def in_future_def)
  have p2: "snd (download_task ''yellow'' 2023 2) = ''data/taxi_data/2023/02/yellow_tripdata_2023-02.parquet''"
    by (simp add: planner_eval)
  have b: "(''yellow'', 2023, 2) \<notin> scanned sample_run \<union> finished_records ''yellow'' True sample_run"
    by (simp add: finished_records_def sample_run_def p2)
  have c: "(''green'', 2022, 5) \<in> scanned sample_run \<union> finished_records ''yellow'' True sample_run"
    by (simp add: sample_run_def)
  have d: "(''green'', 2022, 5) \<notin> requested_grid \<lparr>now_year = 2023, now_month = 3\<rparr> 2023 2023 ''yellow''"
    by (simp add: requested_grid_def)
  show ?thesis using sample_run_eval a b c d by auto
qed

section \<open>The aggregator\<close>

lemma aggregate_counts:
  "aggregate (map Inr rs) (s, f) =
     Inr (s + length (filter snd rs), f + length (filter (\<lambda>r. \<not> snd r) rs))"
proof (induction rs arbitrary: s f)
  case Nil
  show ?case by simp
next
  case (Cons r rs)
  obtain p ok where r: "r = (p, ok)" by (cases r)
  show ?case using Cons.IH by (simp add: r)
qed

lemma all_results_map_Inr:
  fixes futures :: "(error + string \<times> bool) list"
  shows "(\<And>future. future \<in> set futures \<Longrightarrow> \<exists>p success. future = Inr (p, success))
     \<Longrightarrow> \<exists>rs :: (string \<times> bool) list. futures = map Inr rs"
proof (induction futures)
  case Nil
  show ?case by simp
next
  case (Cons future futures)
  obtain p success where f: "future = Inr (p, success)" using Cons.prems [of future] by auto
  obtain rs where "futures = map Inr rs" using Cons by auto
  then have "future # futures = map Inr ((p, success) # rs)" by (simp add: f)
  then show ?case by (rule exI)
qed

lemma run_report:
  assumes "scrape_taxi_data world now fs start_year end_year data_type max_workers = Inr r"
    and "printed r = DownloadComplete found successful failed"
  shows "\<exists>rs. completed r = map Inr rs \<and> length rs = length (planned r) \<and> found = length (planned r)
     \<and> successful = length (filter snd rs) \<and> failed = length (filter (\<lambda>r. \<not> snd r) rs)"
proof -
  obtain fs2 s f where ne: "planned r \<noteq> []"
    and c: "completed r = snd (run_tasks world fs2 (planned r))"
    and a: "aggregate (completed r) (0, 0) = Inr (s, f)"
    and pr: "printed r = DownloadComplete (length (planned r)) s f"
    using scrape_phases [OF assms(1)] assms(2) by auto
  obtain rs where rs: "completed r = map Inr rs"
    using all_results_map_Inr [of "completed r"] aggregate_all_results [OF a] by blast
  obtain fs3 where rt: "run_tasks world fs2 (planned r) = (fs3, completed r)"
    using c by (cases "run_tasks world fs2 (planned r)") auto
  have "length (completed r) = length (planned r)"
    using run_tasks_paths [OF rt] by (simp add: list_all2_lengthD)
  then have len: "length rs = length (planned r)" by (simp add: rs)
  have "Inr (s, f) = (Inr (0 + length (filter snd rs), 0 + length (filter (\<lambda>r. \<not> snd r) rs))
      :: error + nat \<times> nat)"
    using a aggregate_counts [of rs 0 0] by (simp add: rs)
  then have "s = length (filter snd rs)" "f = length (filter (\<lambda>r. \<not> snd r) rs)" by simp_all
  then show ?thesis using rs len pr assms(2) by auto
qed

text \<open>
  Claim C8. Whatever the order in which the results arrive, the counts the aggregator
  ends with depend on the multiset of results only: successful is the number of results
  whose flag is true, failed the number whose flag is false, and together they are the
  number of results. Three results that all succeeded give successful = 3, failed = 0.
  In a run that prints its counts, the results are those of the planned tasks, one for
  each, so that successful and failed add up to the number of tasks.
\<close>

theorem aggregate_tallies:
  "aggregate (map Inr rs) (0, 0) =
     Inr (size (filter_mset snd (mset rs)), size (filter_mset (\<lambda>r. \<not> snd r) (mset rs)))
   \<and> size (filter_mset snd (mset rs)) + size (filter_mset (\<lambda>r. \<not> snd r) (mset rs)) = length rs
   \<and> aggregate (map Inr [(p1, True), (p2, True), (p3, True)]) (0, 0) = Inr (3, 0)
   \<and> (scrape_taxi_data world now fs start_year end_year data_type max_workers = Inr r
        \<and> printed r = DownloadComplete found successful failed \<longrightarrow>
          found = length (planned r) \<and> successful + failed = length (planned r)
        \<and> (\<exists>results. completed r = map Inr results \<and> length results = length (planned r)
              \<and> successful = size (filter_mset snd (mset results))
              \<and> failed = size (filter_mset (\<lambda>r. \<not> snd r) (mset results))))"
proof -
  have a: "size (filter_mset snd (mset xs)) = length (filter snd xs)" for xs :: "(string \<times> bool) list"
    by (metis mset_filter size_mset)
  have b: "size (filter_mset (\<lambda>r. \<not> snd r) (mset xs)) = length (filter (\<lambda>r. \<not> snd r) xs)"
    for xs :: "(string \<times> bool) list"
    by (metis mset_filter size_mset)
  have c: "length (filter snd xs) + length (filter (\<lambda>r. \<not> snd r) xs) = length xs"
    for xs :: "(string \<times> bool) list"
    by (rule sum_length_filter_compl)
  have run: "found = length (planned r) \<and> successful + failed = length (planned r)
        \<and> (\<exists>results. completed r = map Inr results \<and> length results = length (planned r)
              \<and> successful = size (filter_mset snd (mset results))
              \<and> failed = size (filter_mset (\<lambda>r. \<not> snd r) (mset results)))"
    if finished: "scrape_taxi_data world now fs start_year end_year data_type max_workers = Inr r"
      and report: "printed r = DownloadComplete found successful failed"
  proof -
    obtain results where r: "completed r = map Inr results" "length results = length (planned r)"
      "found = length (planned r)" "successful = length (filter snd results)"
      "failed = length (filter (\<lambda>r. \<not> snd r) results)"
      using run_report [OF finished report] by blast
    have "successful + failed = length (planned r)" using r c [of results] by simp
    then show ?thesis using r a [of results] b [of results] by auto
  qed
  have tally: "aggregate (map Inr rs) (0, 0) =
     Inr (size (filter_mset snd (mset rs)), size (filter_mset (\<lambda>r. \<not> snd r) (mset rs)))"
    by (simp add: a b aggregate_counts)
  have total: "size (filter_mset snd (mset rs)) + size (filter_mset (\<lambda>r. \<not> snd r) (mset rs))
      = length rs"
    by (simp add: a b c)
  have three: "aggregate (map Inr [(p1, True), (p2, True), (p3, True)]) (0, 0) = Inr (3, 0)"
    by simp
  show ?thesis using tally total three run by blast
qed

theorem aggregate_tallies_witness:
  "aggregate (map Inr [(''a'', True), (''b'', False), (''c'', True)]) (0, 0) = Inr (2, 1)
   \<and> aggregate (map Inr [(''b'', False), (''c'', True), (''a'', True)]) (0, 0) = Inr (2, 1)
   \<and> aggregate (map Inr [(''a'', True), (''b'', True), (''c'', True)]) (0, 0) = Inr (3, 0)
   \<and> scrape_taxi_data reliable_world \<lparr>now_year = 2023, now_month = 3\<rparr> (Dir []) 2023 2023 ''yellow'' 4
      = Inr all_success_run
   \<and> printed all_success_run = DownloadComplete 3 3 0
   \<and> length (planned all_success_run) = 3 \<and> (3 :: nat) + 0 = 3"
  using aggregate_tallies [of "[(''a'', True), (''b'', False), (''c'', True)]" "''a''" "''b''" "''c''"
      reliable_world "\<lparr>now_year = 2023, now_month = 3\<rparr>" "Dir []" 2023 2023 "''yellow''" 4
      all_success_run 3 3 0]
    aggregate_tallies [of "[(''b'', False), (''c'', True), (''a'', True)]" "''a''" "''b''" "''c''"
      reliable_world "\<lparr>now_year = 2023, now_month = 3\<rparr>" "Dir []" 2023 2023 "''yellow''" 4
      all_success_run 3 3 0]
    all_success_run_eval
  by (simp add: all_success_run_def)

section \<open>Runs for the categories of the command line\<close>

lemma made_dirs_root:
  "made_dirs fs ps fs' \<Longrightarrow> is_dir_node (lookup fs []) \<Longrightarrow> is_dir_node (lookup fs' [])"
  by (rule made_dirs_keeps_dir)

text \<open>
  Failure isolation in a whole run, where it holds. For a category without underscore
  and without separator (as the four categories of the command line), on a file system
  whose root is a directory, in a world in which the operating system refuses the removal
  of no destination: once planning has returned a list of tasks that is not empty and the
  number of workers is positive, the run completes whatever the network does. The result
  of every task is the pair of its destination and a flag that depends on that task
  alone, and the report counts the flags.
\<close>

theorem run_isolates_failures:
  assumes dt: "CHR ''_'' \<notin> set data_type" "CHR ''/'' \<notin> set data_type"
    and c: "create_directory_structure (Dir root) base_path = Inr fs1"
    and g: "get_existing_downloads fs1 base_path = Inr existing"
    and p: "plan_downloads now existing fs1 start_year end_year data_type = Inr (fs2, tasks)"
    and ne: "tasks \<noteq> []" and w: "0 < max_workers"
    and rm: "\<And>task. task \<in> set tasks \<Longrightarrow> remove_ok world (snd task)"
  shows "\<exists>r. scrape_taxi_data world now (Dir root) start_year end_year data_type max_workers = Inr r
     \<and> scanned r = existing \<and> planned r = tasks
     \<and> completed r
         = map (\<lambda>task. Inr (snd task,
                  can_open world fs2 (snd task) \<and> transfer_ok world (fst task) (snd task))) tasks
     \<and> printed r
         = DownloadComplete (length tasks)
             (length (filter (\<lambda>task. can_open world fs2 (snd task)
                                \<and> transfer_ok world (fst task) (snd task)) tasks))
             (length (filter (\<lambda>task. \<not> (can_open world fs2 (snd task)
                                \<and> transfer_ok world (fst task) (snd task))) tasks))"
proof -
  let ?flag = "\<lambda>task. can_open world fs2 (snd task) \<and> transfer_ok world (fst task) (snd task)"
  have "is_dir_node (lookup (Dir root) [])" by simp
  then have "is_dir_node (lookup fs1 [])"
    using create_directory_structure_made [OF c resolve_base_path] made_dirs_root by blast
  then have root2: "is_dir_node (lookup fs2 [])"
    using plan_downloads_result(2) [OF p] made_dirs_root by blast
  have nodir: "\<not> os_path_isdir fs2 (snd task)" if "task \<in> set tasks" for task
    using planned_destination_absent [OF g p dt that] isdir_exists by blast
  have run: "snd (run_tasks world fs2 tasks) = map (\<lambda>task. Inr (snd task, ?flag task)) tasks"
    using run_tasks_alone [OF root2, of tasks world] nodir rm by blast
  obtain fs3 where rt: "run_tasks world fs2 tasks = (fs3, map (\<lambda>task. Inr (snd task, ?flag task)) tasks)"
    using run by (cases "run_tasks world fs2 tasks") auto
  have "aggregate (map Inr (map (\<lambda>task. (snd task, ?flag task)) tasks)) (0, 0)
      = Inr (0 + length (filter snd (map (\<lambda>task. (snd task, ?flag task)) tasks)),
             0 + length (filter (\<lambda>r. \<not> snd r) (map (\<lambda>task. (snd task, ?flag task)) tasks)))"
    by (rule aggregate_counts)
  then have a: "aggregate (map (\<lambda>task. Inr (snd task, ?flag task)) tasks) (0, 0)
      = Inr (length (filter ?flag tasks), length (filter (\<lambda>task. \<not> ?flag task) tasks))"
    by (simp add: filter_map comp_def)
  show ?thesis using c g p ne w rt a by (simp add: scrape_taxi_data_def)
qed

theorem run_isolates_failures_witness:
  "CHR ''_'' \<notin> set ''yellow'' \<and> CHR ''/'' \<notin> set ''yellow''
   \<and> scrape_taxi_data flaky_world \<lparr>now_year = 2023, now_month = 3\<rparr> sample_files 2023 2023 ''yellow'' 4
      = Inr sample_run
   \<and> completed sample_run
      = map (\<lambda>task. Inr (snd task,
               can_open flaky_world
                 (Dir [(''data'', Dir [(''taxi_data'',
                    Dir [(''2022'', Dir [(''05'', Dir [(''green_tripdata_2022-05.parquet'', File ''PAR1'')])]),
                         (''2023'', Dir [(''01'', Dir []), (''02'', Dir []), (''03'', Dir [])])])])])
                 (snd task)
               \<and> transfer_ok flaky_world (fst task) (snd task)))
          [download_task ''yellow'' 2023 1, download_task ''yellow'' 2023 2,
           download_task ''yellow'' 2023 3]"
proof -
  let ?now = "\<lparr>now_year = 2023, now_month = 3\<rparr>"
  let ?fs2 = "Dir [(''data'', Dir [(''taxi_data'',
                    Dir [(''2022'', Dir [(''05'', Dir [(''green_tripdata_2022-05.parquet'', File ''PAR1'')])]),
                         (''2023'', Dir [(''01'', Dir []), (''02'', Dir []), (''03'', Dir [])])])])]"
  let ?tasks = "[download_task ''yellow'' 2023 1, download_task ''yellow'' 2023 2,
           download_task ''yellow'' 2023 3]"
  have dt: "CHR ''_'' \<notin> set ''yellow''" "CHR ''/'' \<notin> set ''yellow''" by simp_all
  have c: "create_directory_structure
      (Dir [(''data'', Dir [(''taxi_data'', Dir [(''2022'', Dir [(''05'',
         Dir [(''green_tripdata_2022-05.parquet'', File ''PAR1'')])])])])]) base_path
      = Inr sample_files"
    by (simp add: planner_eval sample_files_def)
  have g: "get_existing_downloads sample_files base_path = Inr {(''green'', 2022, 5)}"
    by (simp add: scanner_eval base_path_def sample_files_def)
  have p: "plan_downloads ?now {(''green'', 2022, 5)} sample_files 2023 2023 ''yellow''
      = Inr (?fs2, ?tasks)"
    by (simp add: planner_eval sample_files_def)
  have ne: "?tasks \<noteq> []" by simp
  have rm: "\<And>task. task \<in> set ?tasks \<Longrightarrow> remove_ok flaky_world (snd task)"
    by (simp add: flaky_world_def)
  obtain r where r: "scrape_taxi_data flaky_world ?now
        (Dir [(''data'', Dir [(''taxi_data'', Dir [(''2022'', Dir [(''05'',
           Dir [(''green_tripdata_2022-05.parquet'', File ''PAR1'')])])])])])
        2023 2023 ''yellow'' 4 = Inr r"
    and cr: "completed r = map (\<lambda>task. Inr (snd task,
               can_open flaky_world ?fs2 (snd task) \<and> transfer_ok flaky_world (fst task) (snd task))) ?tasks"
    using run_isolates_failures [OF dt c g p ne _ rm, of 4] by auto
  have "r = sample_run" using r sample_run_eval by (simp add: sample_files_def)
  then show ?thesis using cr sample_run_eval by simp
qed

text \<open>
  A run that does not complete. In a world that refuses every removal, the download of
  March 2023 breaks off after its first chunk, the handler calls \<^verbatim>\<open>os.remove\<close> on the file
  it has just written to, and the exception leaves the task, the counting loop and
  \<^verbatim>\<open>scrape_taxi_data\<close>: nothing is reported, although January downloaded and February
  failed in the ordinary way. The file of March stays with the bytes of its first chunk.
\<close>

lemma run_aborted_by_refused_removal:
  "scrape_taxi_data append_only_world \<lparr>now_year = 2023, now_month = 3\<rparr> (Dir []) 2023 2023 ''yellow'' 4
     = Inl PermissionError
   \<and> run_tasks append_only_world
        (Dir [(''data'', Dir [(''taxi_data'',
           Dir [(''2023'', Dir [(''01'', Dir []), (''02'', Dir []), (''03'', Dir [])])])])])
        [download_task ''yellow'' 2023 1, download_task ''yellow'' 2023 2,
         download_task ''yellow'' 2023 3]
      = (Dir [(''data'', Dir [(''taxi_data'',
           Dir [(''2023'', Dir [(''01'', Dir [(''yellow_tripdata_2023-01.parquet'', File ''PAR1data'')]),
                                (''02'', Dir []),
                                (''03'', Dir [(''yellow_tripdata_2023-03.parquet'', File ''PAR1'')])])])])],
         [Inr (''data/taxi_data/2023/01/yellow_tripdata_2023-01.parquet'', True),
          Inr (''data/taxi_data/2023/02/yellow_tripdata_2023-02.parquet'', False),
          Inl PermissionError])"
proof -
  have a: "scrape_taxi_data append_only_world \<lparr>now_year = 2023, now_month = 3\<rparr> (Dir []) 2023 2023
      ''yellow'' 4 = Inl PermissionError"
    by (simp add: scrape_taxi_data_def scanner_eval planner_eval download_eval
        append_only_world_def flaky_world_def)
  have b: "run_tasks append_only_world
        (Dir [(''data'', Dir [(''taxi_data'',
           Dir [(''2023'', Dir [(''01'', Dir []), (''02'', Dir []), (''03'', Dir [])])])])])
        [download_task ''yellow'' 2023 1, download_task ''yellow'' 2023 2,
         download_task ''yellow'' 2023 3]
      = (Dir [(''data'', Dir [(''taxi_data'',
           Dir [(''2023'', Dir [(''01'', Dir [(''yellow_tripdata_2023-01.parquet'', File ''PAR1data'')]),
                                (''02'', Dir []),
                                (''03'', Dir [(''yellow_tripdata_2023-03.parquet'', File ''PAR1'')])])])])],
         [Inr (''data/taxi_data/2023/01/yellow_tripdata_2023-01.parquet'', True),
          Inr (''data/taxi_data/2023/02/yellow_tripdata_2023-02.parquet'', False),
          Inl PermissionError])"
    by (simp add: planner_eval download_eval append_only_world_def flaky_world_def)
  show ?thesis using a b by simp
qed
end
